theory Spec2Isabelle
  imports Complex_Main "HOL-Library.AList" "HOL-Library.Char_ord" "HOL-Library.List_Lexorder"
    "HOL-Library.Sublist"
begin

section \<open>Configuration (config.py)\<close>

text \<open>
  The process environment \<^verbatim>\<open>os.environ\<close> is a map from variable names to values.
  \<^verbatim>\<open>os.getenv(key, default)\<close> returns the default exactly when the key is absent.
\<close>

type_synonym environ = "string \<rightharpoonup> string"

definition getenv :: "environ \<Rightarrow> string \<Rightarrow> string \<Rightarrow> string" where
  "getenv env key dflt = (case env key of None \<Rightarrow> dflt | Some v \<Rightarrow> v)"

text \<open>
  \<^verbatim>\<open>str.lower()\<close>: the letters A to Z are folded to a to z. Every other character
  of the model is left as it is; no character outside A to Z is lowered by Python to one of
  the ASCII characters of \<^verbatim>\<open>true\<close>, \<^verbatim>\<open>1\<close>, \<^verbatim>\<open>yes\<close>, which is all
  the comparison below looks at.
\<close>

definition lower_char :: "char \<Rightarrow> char" where
  "lower_char c =
     (let k = (of_char c :: nat) in if 65 \<le> k \<and> k \<le> 90 then char_of (k + 32) else c)"

definition lower :: "string \<Rightarrow> string" where
  "lower s = map lower_char s"

text \<open>
  \<^verbatim>\<open>DRY_RUN: bool = os.getenv("DRY_RUN", "true").lower() in ("true", "1", "yes")\<close>
\<close>

definition DRY_RUN :: "environ \<Rightarrow> bool" where
  "DRY_RUN env = (lower (getenv env ''DRY_RUN'' ''true'') \<in> set [''true'', ''1'', ''yes''])"


section \<open>The vault: a tree of files and directories\<close>

text \<open>
  The queues are directories under \<^verbatim>\<open>VAULT_ROOT\<close>. A path is the list of its
  components below that root (the empty list is the root itself); components are plain
  names. A regular file has its text, its modification time in seconds and whether it
  may be read; a directory has its entries by name (the first entry of a name is the
  one in force). Symbolic links are not part of the model.
\<close>

type_synonym path = "string list"

datatype node = File string real bool | Dir "(string \<times> node) list"

text \<open>
  The exceptions of the model. Those that the tree operations raise are subclasses of
  \<^verbatim>\<open>OSError\<close> in Python (\<^verbatim>\<open>shutil.Error\<close> included); the last three are
  not. \<^verbatim>\<open>except (OSError, shutil.Error)\<close> catches the former only,
  \<^verbatim>\<open>except Exception\<close> catches all of them.
\<close>

datatype exn = FileNotFoundError | FileExistsError | NotADirectoryError | IsADirectoryError
  | PermissionError | OSError | ShutilError
  | AttributeError | UnicodeDecodeError | UnicodeEncodeError

definition is_OSError :: "exn \<Rightarrow> bool" where
  "is_OSError e =
     (case e of AttributeError \<Rightarrow> False | UnicodeDecodeError \<Rightarrow> False
      | UnicodeEncodeError \<Rightarrow> False | _ \<Rightarrow> True)"

definition IN_PROGRESS_DIR :: path where
  "IN_PROGRESS_DIR = [''In_Progress'']"

definition DONE_DIR :: path where
  "DONE_DIR = [''Done'']"

definition APPROVED_DIR :: path where
  "APPROVED_DIR = [''Approved'']"


text \<open>\<^verbatim>\<open>Path.name\<close>: the last component; the root is the directory \<^verbatim>\<open>ai-employee\<close>.\<close>

definition path_name :: "path \<Rightarrow> string" where
  "path_name p = (if p = [] then ''ai-employee'' else last p)"

fun lookup :: "node \<Rightarrow> path \<Rightarrow> node option" where
  "lookup n [] = Some n"
| "lookup (File c m r) (x # xs) = None"
| "lookup (Dir es) (x # xs) = (case map_of es x of None \<Rightarrow> None | Some c \<Rightarrow> lookup c xs)"

definition exists :: "node \<Rightarrow> path \<Rightarrow> bool" where
  "exists t p = (lookup t p \<noteq> None)"

definition is_dir :: "node \<Rightarrow> path \<Rightarrow> bool" where
  "is_dir t p = (case lookup t p of Some (Dir es) \<Rightarrow> True | _ \<Rightarrow> False)"

definition is_file :: "node \<Rightarrow> path \<Rightarrow> bool" where
  "is_file t p = (case lookup t p of Some (File c m r) \<Rightarrow> True | _ \<Rightarrow> False)"

text \<open>\<^verbatim>\<open>Path.iterdir\<close>: the children of a directory, each name once.\<close>

definition iterdir :: "node \<Rightarrow> path \<Rightarrow> exn + path list" where
  "iterdir t d =
     (case lookup t d of
        None \<Rightarrow> Inl FileNotFoundError
      | Some (File c m r) \<Rightarrow> Inl NotADirectoryError
      | Some (Dir es) \<Rightarrow> Inr (map (\<lambda>x. d @ [x]) (remdups (map fst es))))"

text \<open>\<^verbatim>\<open>Path.read_text\<close>, with \<^verbatim>\<open>errors="replace"\<close>: only the system can refuse.\<close>

definition read_text :: "node \<Rightarrow> path \<Rightarrow> exn + string" where
  "read_text t p =
     (case lookup t p of
        None \<Rightarrow> Inl FileNotFoundError
      | Some (Dir es) \<Rightarrow> Inl IsADirectoryError
      | Some (File c m r) \<Rightarrow> if r then Inr c else Inl PermissionError)"

text \<open>
  \<^verbatim>\<open>Path.stat().st_mtime\<close>. The modification time of a directory is not kept in
  the tree; \<open>dmt\<close> is what the system reports for it.
\<close>

definition st_mtime :: "(path \<Rightarrow> real) \<Rightarrow> node \<Rightarrow> path \<Rightarrow> exn + real" where
  "st_mtime dmt t p =
     (case lookup t p of
        None \<Rightarrow> Inl FileNotFoundError
      | Some (File c m r) \<Rightarrow> Inr m
      | Some (Dir es) \<Rightarrow> Inr (dmt p))"

text \<open>Taking the entry at a path out of the tree, and putting a node at a path whose
  parent is a directory of the tree.\<close>

fun remove :: "path \<Rightarrow> node \<Rightarrow> node" where
  "remove [] n = n"
| "remove (x # xs) (File c m r) = File c m r"
| "remove (x # xs) (Dir es) =
     (if xs = [] then Dir (AList.delete x es)
      else case map_of es x of
             None \<Rightarrow> Dir es
           | Some c \<Rightarrow> Dir (AList.update x (remove xs c) es))"

fun place :: "path \<Rightarrow> node \<Rightarrow> node \<Rightarrow> node" where
  "place [] v n = n"
| "place (x # xs) v (File c m r) = File c m r"
| "place (x # xs) v (Dir es) =
     (if xs = [] then Dir (AList.update x v es)
      else case map_of es x of
             None \<Rightarrow> Dir es
           | Some c \<Rightarrow> Dir (AList.update x (place xs v c) es))"

text \<open>
  \<^verbatim>\<open>Path.mkdir(parents=True, exist_ok=True)\<close>: missing ancestors are created; a
  regular file in the way raises, before anything is created.
\<close>

fun mkdir_p :: "path \<Rightarrow> node \<Rightarrow> exn + node" where
  "mkdir_p [] (Dir es) = Inr (Dir es)"
| "mkdir_p [] (File c m r) = Inl FileExistsError"
| "mkdir_p (x # xs) (File c m r) = Inl NotADirectoryError"
| "mkdir_p (x # xs) (Dir es) =
     (case mkdir_p xs (case map_of es x of None \<Rightarrow> Dir [] | Some c \<Rightarrow> c) of
        Inl e \<Rightarrow> Inl e
      | Inr c' \<Rightarrow> Inr (Dir (AList.update x c' es)))"

text \<open>
  \<^verbatim>\<open>os.rename\<close> (POSIX). A regular file replaces an existing regular file; a
  directory replaces only an empty directory and cannot go below itself; the source and
  the parent of the destination must exist. Renaming a path to itself does nothing.
\<close>

definition os_rename :: "path \<Rightarrow> path \<Rightarrow> node \<Rightarrow> exn + node" where
  "os_rename src dst t =
     (case lookup t src of
        None \<Rightarrow> Inl FileNotFoundError
      | Some v \<Rightarrow>
          if src = [] \<or> dst = [] then Inl OSError
          else (case lookup t (butlast dst) of
                  None \<Rightarrow> Inl FileNotFoundError
                | Some (File c m r) \<Rightarrow> Inl NotADirectoryError
                | Some (Dir ps) \<Rightarrow>
                    if src = dst then Inr t
                    else if prefix src dst then Inl OSError
                    else (case v of
                            File c m r \<Rightarrow>
                              (case lookup t dst of
                                 Some (Dir ds) \<Rightarrow> Inl IsADirectoryError
                               | _ \<Rightarrow> Inr (place dst v (remove src t)))
                          | Dir es \<Rightarrow>
                              (case lookup t dst of
                                 Some (File c m r) \<Rightarrow> Inl NotADirectoryError
                               | Some (Dir ds) \<Rightarrow>
                                   if ds = [] then Inr (place dst v (remove src t))
                                   else Inl OSError
                               | None \<Rightarrow> Inr (place dst v (remove src t))))))"

text \<open>
  What \<^verbatim>\<open>shutil.copytree\<close> copies of a tree: the files that can be read, and every
  directory.
\<close>

fun all_readable :: "node \<Rightarrow> bool" where
  "all_readable (File c m r) = r"
| "all_readable (Dir es) = list_all (\<lambda>e. all_readable (snd e)) es"

fun readable_part :: "node \<Rightarrow> node" where
  "readable_part (File c m r) = File c m r"
| "readable_part (Dir es) =
     Dir (map (\<lambda>e. (fst e, readable_part (snd e)))
            (filter (\<lambda>e. case snd e of File c m r \<Rightarrow> r | Dir ds \<Rightarrow> True) es))"

text \<open>
  The fallback of \<^verbatim>\<open>shutil.move\<close> for a directory that could not be renamed:
  \<^verbatim>\<open>copytree\<close> (which makes the destination with \<^verbatim>\<open>os.makedirs\<close>, copies what it
  can and raises at the end if a file could not be copied), then \<^verbatim>\<open>rmtree\<close> of the
  source.
\<close>

definition copytree_rmtree :: "path \<Rightarrow> path \<Rightarrow> node \<Rightarrow> node \<Rightarrow> node \<times> exn option" where
  "copytree_rmtree src real_dst v t =
     (if exists t real_dst then (t, Some FileExistsError)
      else (case mkdir_p (butlast real_dst) t of
              Inl e \<Rightarrow> (t, Some e)
            | Inr t1 \<Rightarrow>
                let t2 = place real_dst (readable_part v) t1 in
                if all_readable v then (remove src t2, None) else (t2, Some ShutilError)))"

text \<open>
  \<^verbatim>\<open>shutil.move(src, dst)\<close>. The result is the tree afterwards and the exception
  raised, if any. A destination that is a directory receives the source under the
  source's name, and a same-named entry there raises \<^verbatim>\<open>shutil.Error\<close>. Otherwise
  the source is renamed onto the destination. When the rename of a regular file fails,
  the copy that \<^verbatim>\<open>shutil.move\<close> then tries fails for the same reason.
\<close>

definition shutil_move :: "path \<Rightarrow> path \<Rightarrow> node \<Rightarrow> node \<times> exn option" where
  "shutil_move src dst t =
     (if is_dir t dst \<and> src = dst then
        (case os_rename src dst t of Inl e \<Rightarrow> (t, Some e) | Inr t' \<Rightarrow> (t', None))
      else
        let real_dst = (if is_dir t dst then dst @ [path_name src] else dst) in
        if is_dir t dst \<and> exists t real_dst then (t, Some ShutilError)
        else (case os_rename src real_dst t of
                Inr t' \<Rightarrow> (t', None)
              | Inl e \<Rightarrow>
                  (case lookup t src of
                     Some (Dir es) \<Rightarrow>
                       if prefix src dst then (t, Some ShutilError)
                       else copytree_rmtree src real_dst (Dir es) t
                   | _ \<Rightarrow> (t, Some e))))"


section \<open>The audit log and the console (action\_logger.py)\<close>

text \<open>
  An entry of the audit log, without its timestamp. The description is kept as the
  data it is formatted from: a text, the age in hours and the queue name of a stale
  claim, the exception whose message it is, or the process identifier of a started
  worker.
\<close>

datatype descr = Text string | StaleClaim real string | ExnText exn | StartedPid nat

record log_entry =
  action_type :: string
  actor :: string
  target :: string
  description :: descr
  approval_status :: string
  entry_status :: string

text \<open>
  The directory \<^verbatim>\<open>Logs\<close> and the file of the day in it hold JSON where the files
  of the queues hold text, so they are kept beside the tree. \<^verbatim>\<open>Logs\<close> is
  missing, or a regular file stands in its place, or it is a directory. In the
  directory the file of the day is absent, or it holds a JSON list (its entries), or it
  holds JSON that is not a list, or it cannot be read as JSON (it is not JSON, or the
  system refuses the read), or its bytes are not UTF-8, or a directory stands in its
  place. Which file is the file of the day changes at midnight; the model has the one
  of the day.
\<close>

datatype log_file = No_file | Entries "log_entry list" | Other_json | Not_json | Not_utf8
  | A_directory

datatype logs_dir = Logs_missing | Logs_regular_file | Logs_directory log_file

text \<open>
  A line written by \<^verbatim>\<open>print\<close>, kept as the data it is formatted from: which line
  it is (each opens with its own pictograph), and the file name, the action type or the
  exception it mentions. The dry-run and the executed line of the three handlers that
  look at the switch, the line of the fourth handler, the line for an action type
  without handler, the line after the move to Done, and the line for a failure.
\<close>

datatype message =
    Would_send_email string | Email_executed string
  | Would_post string | Post_executed string
  | Would_deploy string | Deployment_started string
  | Meta_approval string
  | Unknown_action_type string string
  | Executed_moved string
  | Failed_with string exn

text \<open>
  The state: the tree of the queues, the directory \<^verbatim>\<open>Logs\<close>, whether the system
  lets the logger create and write there, and the console: \<open>stdout\<close> gives the
  exception that writing a line to it raises, if any (a console that cannot encode a
  character of the line raises \<^verbatim>\<open>UnicodeEncodeError\<close>).
\<close>

record vault =
  tree :: node
  logs :: logs_dir
  logs_writable :: bool
  stdout :: "message \<Rightarrow> exn option"

definition print :: "vault \<Rightarrow> message \<Rightarrow> exn option" where
  "print st line = stdout st line"

text \<open>
  \<^verbatim>\<open>log_path.parent.mkdir(parents=True, exist_ok=True)\<close>: a regular file in the place
  of \<^verbatim>\<open>Logs\<close> raises; a missing directory is created, empty, when the system
  allows it. The result is the file of the day as it is found afterwards.
\<close>

definition logs_mkdir :: "vault \<Rightarrow> exn + log_file" where
  "logs_mkdir st =
     (case logs st of
        Logs_regular_file \<Rightarrow> Inl FileExistsError
      | Logs_missing \<Rightarrow> if logs_writable st then Inr No_file else Inl PermissionError
      | Logs_directory f \<Rightarrow> Inr f)"

text \<open>
  \<^verbatim>\<open>_load_log\<close>: an absent file is the empty list;
  \<^verbatim>\<open>json.JSONDecodeError\<close> and \<^verbatim>\<open>OSError\<close> are caught and give the empty list;
  bytes that do not decode raise \<^verbatim>\<open>UnicodeDecodeError\<close>, which is neither.
  What is returned is whatever JSON value the file holds.
\<close>

datatype json = JList "log_entry list" | JOther

definition load_log :: "log_file \<Rightarrow> exn + json" where
  "load_log f =
     (case f of
        No_file \<Rightarrow> Inr (JList [])
      | Entries es \<Rightarrow> Inr (JList es)
      | Other_json \<Rightarrow> Inr JOther
      | Not_json \<Rightarrow> Inr (JList [])
      | A_directory \<Rightarrow> Inr (JList [])
      | Not_utf8 \<Rightarrow> Inl UnicodeDecodeError)"

text \<open>\<^verbatim>\<open>log_path.write_text\<close>: the file then holds the list written.\<close>

definition write_log :: "bool \<Rightarrow> log_file \<Rightarrow> log_entry list \<Rightarrow> exn + log_file" where
  "write_log writable f es =
     (if f = A_directory then Inl IsADirectoryError
      else if \<not> writable then Inl PermissionError
      else Inr (Entries es))"

text \<open>
  \<^verbatim>\<open>log_action\<close>: the directory is made, the file of the day is loaded, the entry is
  appended (a JSON value that is not a list has no \<^verbatim>\<open>append\<close>) and the list is
  written back. None of the four steps is guarded. \<open>Inl\<close> is the exception raised;
  nothing has been written then.
\<close>

definition log_action ::
  "string \<Rightarrow> string \<Rightarrow> string \<Rightarrow> descr \<Rightarrow> string \<Rightarrow> string \<Rightarrow> vault \<Rightarrow> exn + vault"
where
  "log_action kind who tgt d appr outcome st =
     (case logs_mkdir st of
        Inl e \<Rightarrow> Inl e
      | Inr f \<Rightarrow>
          (case load_log f of
             Inl e \<Rightarrow> Inl e
           | Inr JOther \<Rightarrow> Inl AttributeError
           | Inr (JList entries) \<Rightarrow>
               (case write_log (logs_writable st) f
                       (entries @
                        [\<lparr>action_type = kind, actor = who, target = tgt, description = d,
                          approval_status = appr, entry_status = outcome\<rparr>]) of
                  Inl e \<Rightarrow> Inl e
                | Inr f' \<Rightarrow> Inr (st\<lparr>logs := Logs_directory f'\<rparr>))))"

text \<open>\<^verbatim>\<open>get_today_log\<close>: what \<^verbatim>\<open>_load_log\<close> gives for the file of the day.\<close>

definition get_today_log :: "vault \<Rightarrow> exn + json" where
  "get_today_log st =
     (case logs st of Logs_directory f \<Rightarrow> load_log f | _ \<Rightarrow> Inr (JList []))"


section \<open>Claim protocol (claim\_manager.py)\<close>

definition claim_dir :: "string \<Rightarrow> path" where
  "claim_dir agent_name = IN_PROGRESS_DIR @ [agent_name]"

text \<open>\<^verbatim>\<open>ClaimManager.__init__\<close> makes the worker's scratch queue.\<close>

definition ClaimManager :: "string \<Rightarrow> vault \<Rightarrow> exn + vault" where
  "ClaimManager agent_name st =
     (case mkdir_p (claim_dir agent_name) (tree st) of
        Inl e \<Rightarrow> Inl e
      | Inr t' \<Rightarrow> Inr (st\<lparr>tree := t'\<rparr>))"

definition is_claimed_by_anyone :: "node \<Rightarrow> string \<Rightarrow> exn + bool" where
  "is_claimed_by_anyone t filename =
     (case iterdir t IN_PROGRESS_DIR of
        Inl e \<Rightarrow> Inl e
      | Inr ds \<Rightarrow>
          Inr (list_ex (\<lambda>agent_dir. is_dir t agent_dir \<and> exists t (agent_dir @ [filename])) ds))"

text \<open>
  \<^verbatim>\<open>except (OSError, shutil.Error): return None\<close>, and in the loop of
  \<^verbatim>\<open>abandon_stale\<close> \<^verbatim>\<open>pass\<close>: an exception \<open>e\<close> raised in the
  \<^verbatim>\<open>try\<close> block is caught when it is one of these, and the function goes on with
  \<open>v\<close>; any other exception leaves the function.
\<close>

definition except_OSError :: "exn \<Rightarrow> 'a \<Rightarrow> exn + 'a" where
  "except_OSError e v = (if is_OSError e then Inr v else Inl e)"

text \<open>
  \<^verbatim>\<open>claim\<close>. \<open>Inl\<close> is an exception that leaves the function; \<open>Inr\<close> carries the
  returned path (or \<^verbatim>\<open>None\<close>) and the vault afterwards. The \<^verbatim>\<open>try\<close> block holds
  the move and the log entry, in this order: when the log entry raises, the move has
  taken place. Here and below, the result \<open>Inl\<close> only names the exception: what the
  vault looks like at that moment is not part of it.
\<close>

definition claim :: "string \<Rightarrow> path \<Rightarrow> vault \<Rightarrow> exn + (path option \<times> vault)" where
  "claim agent_name source_path st =
     (if \<not> exists (tree st) source_path then Inr (None, st)
      else
        let filename = path_name source_path in
        case is_claimed_by_anyone (tree st) filename of
          Inl e \<Rightarrow> Inl e
        | Inr True \<Rightarrow> Inr (None, st)
        | Inr False \<Rightarrow>
            let dest = claim_dir agent_name @ [filename] in
            (case shutil_move source_path dest (tree st) of
               (t', Some e) \<Rightarrow> except_OSError e (None, st\<lparr>tree := t'\<rparr>)
             | (t', None) \<Rightarrow>
                 (case log_action ''task_claimed'' agent_name filename
                         (Text (''Claimed by '' @ agent_name)) ''N/A'' ''success''
                         (st\<lparr>tree := t'\<rparr>) of
                    Inl e \<Rightarrow> except_OSError e (None, st\<lparr>tree := t'\<rparr>)
                  | Inr st' \<Rightarrow> Inr (Some dest, st'))))"

definition release :: "string \<Rightarrow> path \<Rightarrow> path \<Rightarrow> vault \<Rightarrow> exn + (path option \<times> vault)" where
  "release agent_name claimed_path destination st =
     (if \<not> exists (tree st) claimed_path then Inr (None, st)
      else
        case mkdir_p destination (tree st) of
          Inl e \<Rightarrow> Inl e
        | Inr t1 \<Rightarrow>
            let dest = destination @ [path_name claimed_path] in
            (case shutil_move claimed_path dest t1 of
               (t', Some e) \<Rightarrow> except_OSError e (None, st\<lparr>tree := t'\<rparr>)
             | (t', None) \<Rightarrow>
                 (case log_action ''task_released'' agent_name (path_name claimed_path)
                         (Text (''Released to '' @ path_name destination)) ''N/A'' ''success''
                         (st\<lparr>tree := t'\<rparr>) of
                    Inl e \<Rightarrow> except_OSError e (None, st\<lparr>tree := t'\<rparr>)
                  | Inr st' \<Rightarrow> Inr (Some dest, st'))))"

definition release_to_done :: "string \<Rightarrow> path \<Rightarrow> vault \<Rightarrow> exn + (path option \<times> vault)" where
  "release_to_done agent_name claimed_path st = release agent_name claimed_path DONE_DIR st"

definition list_claimed :: "string \<Rightarrow> node \<Rightarrow> exn + path list" where
  "list_claimed agent_name t =
     (if \<not> exists t (claim_dir agent_name) then Inr []
      else case iterdir t (claim_dir agent_name) of
             Inl e \<Rightarrow> Inl e
           | Inr fs \<Rightarrow> Inr (filter (\<lambda>f. is_file t f \<and> \<not> prefix ''.'' (path_name f)) fs))"

text \<open>
  The clock and the modification times are floating-point numbers, and so is the age
  computed from them. \<open>fl\<close> is the rounding of the machine: the result of an
  operation is the exact result, rounded. The age is compared with the limit, an
  integer, exactly.
\<close>

definition age_hours_of :: "(real \<Rightarrow> real) \<Rightarrow> real \<Rightarrow> real \<Rightarrow> real" where
  "age_hours_of fl now mtime = fl (fl (now - mtime) / 3600)"

text \<open>
  The \<^verbatim>\<open>try\<close> block in the loop of \<^verbatim>\<open>abandon_stale\<close>, for a stale file
  \<open>f\<close> of age \<open>age_hours\<close>: the move comes first, then the log entry, then the
  count. A move that raises is passed over, and so is a moved file whose log entry
  raises an \<^verbatim>\<open>OSError\<close>: it is not counted.
\<close>

definition abandon_one ::
  "string \<Rightarrow> path \<Rightarrow> real \<Rightarrow> path \<Rightarrow> nat \<Rightarrow> vault \<Rightarrow> exn + (nat \<times> vault)"
where
  "abandon_one agent_name source_dir age_hours f count st =
     (case shutil_move f (source_dir @ [path_name f]) (tree st) of
        (t', Some e) \<Rightarrow> except_OSError e (count, st\<lparr>tree := t'\<rparr>)
      | (t', None) \<Rightarrow>
          (case log_action ''task_abandoned'' agent_name (path_name f)
                  (StaleClaim age_hours (path_name source_dir)) ''N/A'' ''success''
                  (st\<lparr>tree := t'\<rparr>) of
             Inl e \<Rightarrow> except_OSError e (count, st\<lparr>tree := t'\<rparr>)
           | Inr st' \<Rightarrow> Inr (count + 1, st')))"

text \<open>
  The loop over the files listed at its start. \<open>now\<close> is the clock read once before
  the loop.
\<close>

fun abandon_loop ::
  "string \<Rightarrow> path \<Rightarrow> int \<Rightarrow> real \<Rightarrow> (real \<Rightarrow> real) \<Rightarrow> (path \<Rightarrow> real) \<Rightarrow> path list \<Rightarrow> nat \<Rightarrow> vault \<Rightarrow>
   exn + (nat \<times> vault)"
where
  "abandon_loop agent_name source_dir max_age_hours now fl dmt [] count st = Inr (count, st)"
| "abandon_loop agent_name source_dir max_age_hours now fl dmt (f # fs) count st =
     (case st_mtime dmt (tree st) f of
        Inl e \<Rightarrow> Inl e
      | Inr m \<Rightarrow>
          if age_hours_of fl now m > real_of_int max_age_hours then
            (case abandon_one agent_name source_dir (age_hours_of fl now m) f count st of
               Inl e \<Rightarrow> Inl e
             | Inr (count', st') \<Rightarrow>
                 abandon_loop agent_name source_dir max_age_hours now fl dmt fs count' st')
          else abandon_loop agent_name source_dir max_age_hours now fl dmt fs count st)"

definition abandon_stale ::
  "string \<Rightarrow> path \<Rightarrow> int \<Rightarrow> real \<Rightarrow> (real \<Rightarrow> real) \<Rightarrow> (path \<Rightarrow> real) \<Rightarrow> vault \<Rightarrow> exn + (nat \<times> vault)"
where
  "abandon_stale agent_name source_dir max_age_hours now fl dmt st =
     (case list_claimed agent_name (tree st) of
        Inl e \<Rightarrow> Inl e
      | Inr fs \<Rightarrow> abandon_loop agent_name source_dir max_age_hours now fl dmt fs 0 st)"


section \<open>Approval gate (hitl\_approval.py)\<close>

subsection \<open>Text and names\<close>

text \<open>
  Text is a list of characters with code points below 256. The line boundaries of
  \<^verbatim>\<open>str.splitlines\<close> and the white space of \<^verbatim>\<open>str.strip\<close> in that range:
\<close>

definition is_linebreak :: "char \<Rightarrow> bool" where
  "is_linebreak c = ((of_char c :: nat) \<in> set [10, 11, 12, 13, 28, 29, 30, 133])"

definition is_space :: "char \<Rightarrow> bool" where
  "is_space c = ((of_char c :: nat) \<in> set [9, 10, 11, 12, 13, 28, 29, 30, 31, 32, 133, 160])"

text \<open>
  \<^verbatim>\<open>str.splitlines\<close>: a carriage return followed by a line feed is one boundary, and
  there is no empty last line. \<open>cur\<close> is the line read so far.
\<close>

fun splitlines_from :: "string \<Rightarrow> string \<Rightarrow> string list" where
  "splitlines_from cur [] = (if cur = [] then [] else [cur])"
| "splitlines_from cur (c # cs) =
     (if c = CHR 0x0D then
        (case cs of
           [] \<Rightarrow> [cur]
         | d # ds \<Rightarrow>
             if d = CHR 0x0A then cur # splitlines_from [] ds
             else cur # splitlines_from [] cs)
      else if is_linebreak c then cur # splitlines_from [] cs
      else splitlines_from (cur @ [c]) cs)"

definition splitlines :: "string \<Rightarrow> string list" where
  "splitlines s = splitlines_from [] s"

definition strip :: "string \<Rightarrow> string" where
  "strip s = rev (dropWhile is_space (rev (dropWhile is_space s)))"

text \<open>
  \<^verbatim>\<open>line.split(":", 1)[1]\<close>: what follows the first colon. It is only taken of a
  line that has a colon.
\<close>

definition after_colon :: "string \<Rightarrow> string" where
  "after_colon line = drop 1 (dropWhile (\<lambda>c. c \<noteq> CHR '':'') line)"

fun extract_from_lines :: "string list \<Rightarrow> string" where
  "extract_from_lines [] = ''unknown''"
| "extract_from_lines (line # ls) =
     (if prefix ''action:'' (strip line) then strip (after_colon line)
      else extract_from_lines ls)"

definition extract_action_type :: "string \<Rightarrow> string" where
  "extract_action_type content = extract_from_lines (splitlines content)"

text \<open>
  \<^verbatim>\<open>Path.suffix\<close> and \<^verbatim>\<open>Path.stem\<close>: the name is cut at its last dot, unless
  that dot is the first or the last character or there is none.
\<close>

fun rfind :: "char \<Rightarrow> string \<Rightarrow> nat option" where
  "rfind c [] = None"
| "rfind c (x # xs) =
     (case rfind c xs of
        Some i \<Rightarrow> Some (Suc i)
      | None \<Rightarrow> if x = c then Some 0 else None)"

definition suffix_of :: "string \<Rightarrow> string" where
  "suffix_of nm =
     (case rfind (CHR ''.'') nm of
        Some i \<Rightarrow> if 0 < i \<and> i < length nm - 1 then drop i nm else []
      | None \<Rightarrow> [])"

definition stem_of :: "string \<Rightarrow> string" where
  "stem_of nm =
     (case rfind (CHR ''.'') nm of
        Some i \<Rightarrow> if 0 < i \<and> i < length nm - 1 then take i nm else nm
      | None \<Rightarrow> nm)"


subsection \<open>Handlers\<close>

text \<open>
  A handler gets the dry-run switch and the path, writes one line to the console and
  returns \<^verbatim>\<open>True\<close>; three of the four look at the switch first. The only way a
  handler raises is that its \<^verbatim>\<open>print\<close> does. \<open>printed\<close> is
  \<^verbatim>\<open>print(line)\<close> followed by \<^verbatim>\<open>return True\<close>.
\<close>

definition printed :: "vault \<Rightarrow> message \<Rightarrow> exn + bool" where
  "printed st line = (case print st line of Some e \<Rightarrow> Inl e | None \<Rightarrow> Inr True)"

definition handle_draft_email_reply :: "bool \<Rightarrow> vault \<Rightarrow> path \<Rightarrow> exn + bool" where
  "handle_draft_email_reply dry st filepath =
     (if dry then printed st (Would_send_email (path_name filepath))
      else printed st (Email_executed (path_name filepath)))"

definition handle_draft_social_post :: "bool \<Rightarrow> vault \<Rightarrow> path \<Rightarrow> exn + bool" where
  "handle_draft_social_post dry st filepath =
     (if dry then printed st (Would_post (path_name filepath))
      else printed st (Post_executed (path_name filepath)))"

definition handle_deploy_checklist :: "bool \<Rightarrow> vault \<Rightarrow> path \<Rightarrow> exn + bool" where
  "handle_deploy_checklist dry st filepath =
     (if dry then printed st (Would_deploy (path_name filepath))
      else printed st (Deployment_started (path_name filepath)))"

definition handle_request_approval :: "bool \<Rightarrow> vault \<Rightarrow> path \<Rightarrow> exn + bool" where
  "handle_request_approval dry st filepath = printed st (Meta_approval (path_name filepath))"

definition ACTION_HANDLERS :: "(string \<times> (bool \<Rightarrow> vault \<Rightarrow> path \<Rightarrow> exn + bool)) list" where
  "ACTION_HANDLERS =
     [(''draft_email_reply'', handle_draft_email_reply),
      (''draft_social_post'', handle_draft_social_post),
      (''deploy_checklist'', handle_deploy_checklist),
      (''request_approval'', handle_request_approval)]"

subsection \<open>The pass over Approved\<close>

record summary =
  executed :: nat
  failed :: nat
  dry_run :: nat

definition show_bool :: "bool \<Rightarrow> string" where
  "show_bool b = (if b then ''True'' else ''False'')"

text \<open>
  The destination in Done: the task's own name, or, when that name exists there, the
  stem, an underscore, the formatted clock reading and the suffix. \<open>ts\<close> gives the
  clock reading, formatted, at the moment the entry of a given name is moved.
\<close>

definition done_path_for :: "(string \<Rightarrow> string) \<Rightarrow> node \<Rightarrow> path \<Rightarrow> path" where
  "done_path_for ts t filepath =
     (let done_path = DONE_DIR @ [path_name filepath] in
      if exists t done_path
      then DONE_DIR @ [stem_of (path_name filepath) @ ''_'' @ ts (path_name filepath) @
                        suffix_of (path_name filepath)]
      else done_path)"

text \<open>
  The \<^verbatim>\<open>try\<close> block of the loop of \<^verbatim>\<open>check_approved\<close>, up to the counting: the
  handler is run, the execution is logged, the file is moved to Done and a line is
  printed. The result is the vault when the block ends or raises, and the exception
  raised, if any. \<open>dry\<close> is the dry-run switch.
\<close>

definition try_block ::
  "bool \<Rightarrow> (string \<Rightarrow> string) \<Rightarrow> path \<Rightarrow> string \<Rightarrow> (bool \<Rightarrow> vault \<Rightarrow> path \<Rightarrow> exn + bool) \<Rightarrow>
   vault \<Rightarrow> vault \<times> exn option"
where
  "try_block dry ts filepath action handler st =
     (case handler dry st filepath of
        Inl e \<Rightarrow> (st, Some e)
      | Inr success \<Rightarrow>
          (case log_action ''action_executed'' ''hitl_approval'' (path_name filepath)
                  (Text (''Executed '' @ action @ '' (DRY_RUN='' @ show_bool dry @ '')''))
                  ''approved''
                  (if dry then ''dry_run'' else if success then ''success'' else ''failed'') st of
             Inl e \<Rightarrow> (st, Some e)
           | Inr st1 \<Rightarrow>
               (case shutil_move filepath (done_path_for ts (tree st1) filepath) (tree st1) of
                  (t', Some e) \<Rightarrow> (st1\<lparr>tree := t'\<rparr>, Some e)
                | (t', None) \<Rightarrow> (st1\<lparr>tree := t'\<rparr>, print st1 (Executed_moved action)))))"

text \<open>
  The \<^verbatim>\<open>try\<close> block with its \<^verbatim>\<open>except Exception\<close>. When the block ends the task
  is counted as a dry run or as executed. When it raises, a line is printed, the failure
  is logged and the task is counted as failed; these are outside the \<^verbatim>\<open>try\<close>, so an
  exception of the \<^verbatim>\<open>print\<close> or of the log entry there leaves the function.
\<close>

fun execute_action ::
  "bool \<Rightarrow> (string \<Rightarrow> string) \<Rightarrow> path \<Rightarrow> string \<Rightarrow> (bool \<Rightarrow> vault \<Rightarrow> path \<Rightarrow> exn + bool) \<Rightarrow>
   summary \<times> vault \<Rightarrow> exn + summary \<times> vault"
where
  "execute_action dry ts filepath action handler (s, st) =
     (case try_block dry ts filepath action handler st of
        (st2, None) \<Rightarrow>
          Inr (if dry then s\<lparr>dry_run := dry_run s + 1\<rparr> else s\<lparr>executed := executed s + 1\<rparr>, st2)
      | (st2, Some e) \<Rightarrow>
          (case print st2 (Failed_with action e) of
             Some e' \<Rightarrow> Inl e'
           | None \<Rightarrow>
               (case log_action ''action_failed'' ''hitl_approval'' (path_name filepath)
                       (ExnText e) ''approved'' ''failed'' st2 of
                  Inl e' \<Rightarrow> Inl e'
                | Inr st3 \<Rightarrow> Inr (s\<lparr>failed := failed s + 1\<rparr>, st3))))"

text \<open>
  The branch for an action type without handler: a line is printed, the failure is
  logged and counted. Nothing here is inside a \<^verbatim>\<open>try\<close>.
\<close>

fun no_handler :: "path \<Rightarrow> string \<Rightarrow> summary \<times> vault \<Rightarrow> exn + summary \<times> vault" where
  "no_handler filepath action (s, st) =
     (case print st (Unknown_action_type action (path_name filepath)) of
        Some e \<Rightarrow> Inl e
      | None \<Rightarrow>
          (case log_action ''action_failed'' ''hitl_approval'' (path_name filepath)
                  (Text (''No handler for action type: '' @ action)) ''approved'' ''failed'' st of
             Inl e \<Rightarrow> Inl e
           | Inr st1 \<Rightarrow> Inr (s\<lparr>failed := failed s + 1\<rparr>, st1)))"

text \<open>
  The body of the loop for one entry. Hidden entries and entries that are not regular
  files are passed over. Reading the text and the branch for an action without handler
  come before the \<^verbatim>\<open>try\<close> block: an exception of \<^verbatim>\<open>read_text\<close> leaves the
  function.
\<close>

fun check_one ::
  "bool \<Rightarrow> (string \<Rightarrow> string) \<Rightarrow> path \<Rightarrow> summary \<times> vault \<Rightarrow> exn + summary \<times> vault"
where
  "check_one dry ts filepath (s, st) =
     (if prefix ''.'' (path_name filepath) \<or> \<not> is_file (tree st) filepath then Inr (s, st)
      else
        case read_text (tree st) filepath of
          Inl e \<Rightarrow> Inl e
        | Inr content \<Rightarrow>
            (case map_of ACTION_HANDLERS (extract_action_type content) of
               None \<Rightarrow> no_handler filepath (extract_action_type content) (s, st)
             | Some handler \<Rightarrow>
                 execute_action dry ts filepath (extract_action_type content) handler (s, st)))"

fun check_loop ::
  "bool \<Rightarrow> (string \<Rightarrow> string) \<Rightarrow> path list \<Rightarrow> summary \<times> vault \<Rightarrow> exn + summary \<times> vault"
where
  "check_loop dry ts [] acc = Inr acc"
| "check_loop dry ts (filepath # rest) acc =
     (case check_one dry ts filepath acc of
        Inl e \<Rightarrow> Inl e
      | Inr acc' \<Rightarrow> check_loop dry ts rest acc')"

text \<open>
  \<^verbatim>\<open>check_approved\<close>: the entries of Approved in sorted order. Paths of one
  directory are ordered by their names, character by character.
\<close>

definition check_approved :: "bool \<Rightarrow> (string \<Rightarrow> string) \<Rightarrow> vault \<Rightarrow> exn + summary \<times> vault" where
  "check_approved dry ts st =
     (case iterdir (tree st) APPROVED_DIR of
        Inl e \<Rightarrow> Inl e
      | Inr entries \<Rightarrow>
          check_loop dry ts (sort entries) (\<lparr>executed = 0, failed = 0, dry_run = 0\<rparr>, st))"


section \<open>Process supervisor (orchestrator.py)\<close>

subsection \<open>The operating system as the supervisor sees it\<close>

text \<open>
  \<^verbatim>\<open>AgentProcess.status\<close> is a string in the source; the seven values below are the
  only ones ever assigned or tested.
\<close>

datatype status = Idle | Running | Stopped | Crashed | Abandoned | Missing | Failed

text \<open>
  The supervisor touches the operating system in three ways: it tests whether a script
  exists under \<^verbatim>\<open>AGENTS_DIR\<close>, it spawns a child with \<^verbatim>\<open>subprocess.Popen\<close> (which
  either returns a handle or raises), and it polls or terminates a child. A child is
  named by its process identifier. \<open>launches\<close> records every command handed to
  \<^verbatim>\<open>Popen\<close>, whether the spawn succeeded or not: its length is the number of spawn
  attempts. \<open>os_audit\<close> is the audit log as the supervisor writes it.
\<close>

record os_state =
  script_exists :: "string \<Rightarrow> bool"
  popen_ok :: "string \<Rightarrow> bool"
  live :: "nat \<Rightarrow> bool"
  stderr_of :: "nat \<Rightarrow> string"
  next_pid :: nat
  launches :: "string list list"
  os_audit :: "log_entry list"

record agent_process =
  name :: string
  script :: string
  group :: string
  required :: bool
  args :: "string list"
  process :: "nat option"
  status :: status
  restarts :: nat

definition MAX_RESTARTS :: nat where
  "MAX_RESTARTS = 5"

text \<open>\<^verbatim>\<open>AgentProcess.__init__\<close>: no process, status idle, no restarts.\<close>

definition init_agent :: "string \<Rightarrow> string \<Rightarrow> string \<Rightarrow> bool \<Rightarrow> string list \<Rightarrow> agent_process" where
  "init_agent n s g r a =
     \<lparr>name = n, script = s, group = g, required = r, args = a,
      process = None, status = Idle, restarts = 0\<rparr>"

text \<open>
  \<^verbatim>\<open>start\<close>: a missing script gives status missing without any spawn. Otherwise
  \<^verbatim>\<open>Popen\<close> is called: on success the record holds the new handle and is running, on
  an exception it is failed (and keeps the handle it had). A successful start is logged.
\<close>

definition start :: "os_state \<Rightarrow> agent_process \<Rightarrow> os_state \<times> agent_process \<times> bool" where
  "start os a =
     (if \<not> script_exists os (script a) then (os, a\<lparr>status := Missing\<rparr>, False)
      else
        let os1 = os\<lparr>launches := launches os @ [script a # args a]\<rparr> in
        if popen_ok os (script a) then
          let pid = next_pid os1;
              os2 = os1\<lparr>live := (live os1)(pid := True), next_pid := Suc pid,
                        os_audit := os_audit os1 @
                          [\<lparr>action_type = ''agent_started'', actor = ''orchestrator'',
                            target = name a, description = StartedPid pid,
                            approval_status = ''N/A'', entry_status = ''success''\<rparr>]\<rparr>
          in (os2, a\<lparr>process := Some pid, status := Running\<rparr>, True)
        else (os1, a\<lparr>status := Failed\<rparr>, False))"

text \<open>\<^verbatim>\<open>is_alive\<close>: no handle is not alive; otherwise \<^verbatim>\<open>poll() is None\<close>.\<close>

definition is_alive :: "os_state \<Rightarrow> agent_process \<Rightarrow> bool" where
  "is_alive os a = (case process a of None \<Rightarrow> False | Some pid \<Rightarrow> live os pid)"

text \<open>
  \<^verbatim>\<open>get_exit_info\<close>: the last 500 characters of the child's standard error, or the
  empty string. The caller only prints it.
\<close>

definition get_exit_info :: "os_state \<Rightarrow> agent_process \<Rightarrow> string" where
  "get_exit_info os a =
     (case process a of
        None \<Rightarrow> []
      | Some pid \<Rightarrow> (let err = stderr_of os pid in drop (length err - 500) err))"

text \<open>
  \<^verbatim>\<open>stop\<close>: a live child is terminated (and killed after the grace period), so that it
  is no longer alive; the status becomes stopped in every case.
\<close>

definition stop :: "os_state \<Rightarrow> agent_process \<Rightarrow> os_state \<times> agent_process" where
  "stop os a =
     (let os' = (case process a of
                   None \<Rightarrow> os
                 | Some pid \<Rightarrow> if is_alive os a then os\<lparr>live := (live os)(pid := False)\<rparr> else os)
      in (os', a\<lparr>status := Stopped\<rparr>))"

text \<open>
  \<^verbatim>\<open>restart\<close>: at the ceiling the record is abandoned and nothing else happens.
  Below it the child is stopped, the counter is incremented, the diagnostic output is
  read (for printing only) and \<^verbatim>\<open>start\<close> is called.
\<close>

definition restart :: "os_state \<Rightarrow> agent_process \<Rightarrow> os_state \<times> agent_process \<times> bool" where
  "restart os a =
     (if restarts a \<ge> MAX_RESTARTS then (os, a\<lparr>status := Abandoned\<rparr>, False)
      else
        let (os1, a1) = stop os a;
            a2 = a1\<lparr>restarts := restarts a1 + 1\<rparr>;
            diag = get_exit_info os1 a2
        in start os1 a2)"

text \<open>
  One iteration of the loop of \<^verbatim>\<open>health_check\<close>: records that are abandoned,
  missing or idle are skipped; a record that is not alive and whose status is running
  is marked crashed and restarted; every other record is left alone.
\<close>

definition health_check_one :: "os_state \<Rightarrow> agent_process \<Rightarrow> os_state \<times> agent_process" where
  "health_check_one os a =
     (if status a \<in> set [Abandoned, Missing, Idle] then (os, a)
      else if \<not> is_alive os a \<and> status a = Running then
        (let (os', a', ok) = restart os (a\<lparr>status := Crashed\<rparr>) in (os', a'))
      else (os, a))"

fun health_check :: "os_state \<Rightarrow> agent_process list \<Rightarrow> os_state \<times> agent_process list" where
  "health_check os [] = (os, [])"
| "health_check os (a # as) =
     (let (os1, a') = health_check_one os a;
          (os2, as') = health_check os1 as
      in (os2, a' # as'))"





subsection \<open>Example states of the supervisor\<close>


text \<open>An operating system on which every script exists and every spawn raises.\<close>

definition os_nospawn :: os_state where
  "os_nospawn = \<lparr>script_exists = (\<lambda>s. True), popen_ok = (\<lambda>s. False), live = (\<lambda>p. False),
            stderr_of = (\<lambda>p. []), next_pid = 0, launches = [], os_audit = []\<rparr>"

definition worker0 :: agent_process where
  "worker0 = init_agent ''task_router'' ''task_router.py'' ''reasoning'' True []"


section \<open>Example states\<close>

text \<open>
  A console that can encode every line, and a console that encodes the characters of
  the Basic Multilingual Plane only: it refuses the five lines that open with a
  pictograph outside that plane.
\<close>

definition console_utf8 :: "message \<Rightarrow> exn option" where
  "console_utf8 line = None"

definition console_bmp :: "message \<Rightarrow> exn option" where
  "console_bmp line =
     (case line of
        Would_send_email n \<Rightarrow> Some UnicodeEncodeError
      | Would_post n \<Rightarrow> Some UnicodeEncodeError
      | Would_deploy n \<Rightarrow> Some UnicodeEncodeError
      | Post_executed n \<Rightarrow> Some UnicodeEncodeError
      | Deployment_started n \<Rightarrow> Some UnicodeEncodeError
      | _ \<Rightarrow> None)"

text \<open>
  The clock readings and modification times of the examples are whole numbers of
  seconds whose differences are whole numbers of hours: on them the floating-point
  operations are exact, and the rounding leaves the result as it is.
\<close>

definition exact :: "real \<Rightarrow> real" where
  "exact x = x"

text \<open>
  Two workers with empty scratch queues, a task \<^verbatim>\<open>t.md\<close> in Needs\_Action and another
  task of the same name in Approved, no directory \<^verbatim>\<open>Logs\<close> yet; and the same vault
  once \<^verbatim>\<open>cloud_agent\<close> has claimed the first.
\<close>

definition vault0 :: vault where
  "vault0 =
     \<lparr>tree = Dir [(''In_Progress'', Dir [(''cloud_agent'', Dir []), (''local_agent'', Dir [])]),
                  (''Needs_Action'', Dir [(''t.md'', File ''action: draft_email_reply'' 0 True)]),
                  (''Approved'', Dir [(''t.md'', File ''action: deploy_checklist'' 0 True)]),
                  (''Done'', Dir [])],
      logs = Logs_missing, logs_writable = True, stdout = console_utf8\<rparr>"

definition vault1 :: vault where
  "vault1 =
     \<lparr>tree = Dir [(''In_Progress'',
                    Dir [(''cloud_agent'', Dir [(''t.md'', File ''action: draft_email_reply'' 0 True)]),
                         (''local_agent'', Dir [])]),
                  (''Needs_Action'', Dir []),
                  (''Approved'', Dir [(''t.md'', File ''action: deploy_checklist'' 0 True)]),
                  (''Done'', Dir [])],
      logs = Logs_directory (Entries
               [\<lparr>action_type = ''task_claimed'', actor = ''cloud_agent'', target = ''t.md'',
                 description = Text ''Claimed by cloud_agent'', approval_status = ''N/A'',
                 entry_status = ''success''\<rparr>]),
      logs_writable = True, stdout = console_utf8\<rparr>"



text \<open>
  A claimed task \<^verbatim>\<open>t.md\<close> while Done already holds a file of that name, and the
  vault after its release to Done and after its abandonment to Done. The same with an
  empty directory of that name in Done, and the vault after the release.
\<close>

definition vault_collision :: vault where
  "vault_collision =
     \<lparr>tree = Dir [(''In_Progress'', Dir [(''cloud_agent'', Dir [(''t.md'', File ''new'' 100 True)])]),
                  (''Done'', Dir [(''t.md'', File ''old'' 50 True)])],
      logs = Logs_directory (Entries []), logs_writable = True, stdout = console_utf8\<rparr>"

definition vault_collision_released :: vault where
  "vault_collision_released =
     \<lparr>tree = Dir [(''In_Progress'', Dir [(''cloud_agent'', Dir [])]),
                  (''Done'', Dir [(''t.md'', File ''new'' 100 True)])],
      logs = Logs_directory (Entries
               [\<lparr>action_type = ''task_released'', actor = ''cloud_agent'', target = ''t.md'',
                 description = Text ''Released to Done'', approval_status = ''N/A'',
                 entry_status = ''success''\<rparr>]),
      logs_writable = True, stdout = console_utf8\<rparr>"

definition vault_collision_abandoned :: vault where
  "vault_collision_abandoned =
     \<lparr>tree = Dir [(''In_Progress'', Dir [(''cloud_agent'', Dir [])]),
                  (''Done'', Dir [(''t.md'', File ''new'' 100 True)])],
      logs = Logs_directory (Entries
               [\<lparr>action_type = ''task_abandoned'', actor = ''cloud_agent'', target = ''t.md'',
                 description = StaleClaim 5 ''Done'', approval_status = ''N/A'',
                 entry_status = ''success''\<rparr>]),
      logs_writable = True, stdout = console_utf8\<rparr>"

definition vault_collision_dir :: vault where
  "vault_collision_dir =
     \<lparr>tree = Dir [(''In_Progress'', Dir [(''cloud_agent'', Dir [(''t.md'', File ''new'' 100 True)])]),
                  (''Done'', Dir [(''t.md'', Dir [])])],
      logs = Logs_directory (Entries []), logs_writable = True, stdout = console_utf8\<rparr>"

definition vault_collision_dir_released :: vault where
  "vault_collision_dir_released =
     \<lparr>tree = Dir [(''In_Progress'', Dir [(''cloud_agent'', Dir [])]),
                  (''Done'', Dir [(''t.md'', Dir [(''t.md'', File ''new'' 100 True)])])],
      logs = Logs_directory (Entries
               [\<lparr>action_type = ''task_released'', actor = ''cloud_agent'', target = ''t.md'',
                 description = Text ''Released to Done'', approval_status = ''N/A'',
                 entry_status = ''success''\<rparr>]),
      logs_writable = True, stdout = console_utf8\<rparr>"





text \<open>A clock that reads midnight of 1 January 2026 whenever it is asked.\<close>

definition clock0 :: "string \<Rightarrow> string" where
  "clock0 nm = ''20260101T000000''"


section \<open>Notions used in the statements\<close>

text \<open>
  The entries of the log of the day: what \<open>get_today_log\<close> gives when the file holds
  a list, and none otherwise. The entry that \<open>log_action\<close> writes.
\<close>

definition audit :: "vault \<Rightarrow> log_entry list" where
  "audit st = (case get_today_log st of Inr (JList es) \<Rightarrow> es | _ \<Rightarrow> [])"

definition new_entry :: "string \<Rightarrow> string \<Rightarrow> string \<Rightarrow> descr \<Rightarrow> string \<Rightarrow> string \<Rightarrow> log_entry" where
  "new_entry kind who tgt d appr outcome =
     \<lparr>action_type = kind, actor = who, target = tgt, description = d,
      approval_status = appr, entry_status = outcome\<rparr>"

text \<open>
  The log can be written: the system lets the logger write, and \<^verbatim>\<open>Logs\<close> is
  missing or is a directory in which the file of the day is absent, holds a list, or
  cannot be read as JSON.
\<close>

definition log_ok :: "vault \<Rightarrow> bool" where
  "log_ok st =
     (logs_writable st \<and>
      (case logs st of
         Logs_missing \<Rightarrow> True
       | Logs_regular_file \<Rightarrow> False
       | Logs_directory f \<Rightarrow>
           (case f of No_file \<Rightarrow> True | Entries es \<Rightarrow> True | Not_json \<Rightarrow> True | _ \<Rightarrow> False)))"

text \<open>
  The log is in a state in which a log entry raises an exception that is not an
  \<^verbatim>\<open>OSError\<close>: the file of the day holds JSON that is not a list, or bytes that are
  not UTF-8.
\<close>

definition log_escapes :: "vault \<Rightarrow> bool" where
  "log_escapes st =
     (case logs st of
        Logs_directory f \<Rightarrow> (case f of Other_json \<Rightarrow> True | Not_utf8 \<Rightarrow> True | _ \<Rightarrow> False)
      | _ \<Rightarrow> False)"




section \<open>Properties of the configuration\<close>

text \<open>
  C10. The dry-run switch is on when the variable \<^verbatim>\<open>DRY_RUN\<close> is absent, and when it
  is present the switch is on exactly when its lower-cased value is \<^verbatim>\<open>true\<close>,
  \<^verbatim>\<open>1\<close> or \<^verbatim>\<open>yes\<close>.
\<close>

theorem dry_run_switch:
  "DRY_RUN (env(''DRY_RUN'' := None)) \<and>
   (DRY_RUN (env(''DRY_RUN'' \<mapsto> v)) \<longleftrightarrow> lower v = ''true'' \<or> lower v = ''1'' \<or> lower v = ''yes'')"
  by (simp add: DRY_RUN_def getenv_def lower_def lower_char_def)

theorem dry_run_switch_witness:
  "DRY_RUN (Map.empty(''DRY_RUN'' := None)) \<and> DRY_RUN (Map.empty(''DRY_RUN'' \<mapsto> ''Yes'')) \<and>
   lower ''Yes'' = ''yes''"
proof -
  have y: "char_of (121 :: nat) = CHR ''y''" by code_simp
  have l: "lower ''Yes'' = ''yes''" by (simp add: lower_def lower_char_def y)
  show ?thesis using dry_run_switch [of Map.empty "''Yes''"] l by simp
qed


section \<open>Properties of the process supervisor\<close>

lemma start_restarts: "restarts (fst (snd (start os a))) = restarts a"
  by (simp add: start_def Let_def)

lemma start_static:
  "script_exists (fst (start os a)) = script_exists os"
  "popen_ok (fst (start os a)) = popen_ok os"
  by (simp_all add: start_def Let_def)

lemma stop_fields:
  "restarts (snd (stop os a)) = restarts a"
  "script (snd (stop os a)) = script a"
  "args (snd (stop os a)) = args a"
  "launches (fst (stop os a)) = launches os"
  "script_exists (fst (stop os a)) = script_exists os"
  "popen_ok (fst (stop os a)) = popen_ok os"
  "next_pid (fst (stop os a)) = next_pid os"
  by (simp_all add: stop_def Let_def split: option.splits)


lemma restart_bound:
  "restarts a \<le> MAX_RESTARTS \<Longrightarrow> restarts (fst (snd (restart os a))) \<le> MAX_RESTARTS"
  by (simp add: restart_def start_restarts stop_def Let_def split: prod.splits)

lemma health_check_one_bound:
  "restarts a \<le> MAX_RESTARTS \<Longrightarrow> restarts (snd (health_check_one os a)) \<le> MAX_RESTARTS"
  using restart_bound [of "a\<lparr>status := Crashed\<rparr>" os]
  by (auto simp add: health_check_one_def split: prod.splits)

lemma health_check_bound:
  "list_all (\<lambda>a. restarts a \<le> MAX_RESTARTS) as \<Longrightarrow>
   list_all (\<lambda>a. restarts a \<le> MAX_RESTARTS) (snd (health_check os as))"
proof (induction as arbitrary: os)
  case Nil
  then show ?case by simp
next
  case (Cons a as)
  obtain os1 a' where h1: "health_check_one os a = (os1, a')" by (cases "health_check_one os a")
  obtain os2 as' where h2: "health_check os1 as = (os2, as')" by (cases "health_check os1 as")
  have "restarts a' \<le> MAX_RESTARTS"
    using health_check_one_bound [of a os] Cons.prems h1 by simp
  moreover have "list_all (\<lambda>a. restarts a \<le> MAX_RESTARTS) as'"
    using Cons.IH [of os1] Cons.prems h2 by simp
  ultimately show ?case by (simp add: h1 h2)
qed

lemma health_check_one_skips:
  "status a \<in> {Abandoned, Missing, Idle} \<Longrightarrow> health_check_one os a = (os, a)"
  by (auto simp add: health_check_one_def)

lemma health_check_skips:
  "\<forall>a \<in> set as. status a \<in> {Abandoned, Missing, Idle} \<Longrightarrow> health_check os as = (os, as)"
  by (induction as arbitrary: os) (simp_all add: health_check_one_skips)







text \<open>
  C8, as the code has it. A health check restarts a record exactly when its status is
  running and its child is not alive. A record in any other state, failed included, is
  left as it is, with the operating system unchanged: a failed record is never retried.
\<close>

theorem health_check_restarts_only_running:
  "(status a \<noteq> Running \<longrightarrow> health_check_one os a = (os, a)) \<and>
   (status a = Running \<and> is_alive os a \<longrightarrow> health_check_one os a = (os, a)) \<and>
   (status a = Running \<and> \<not> is_alive os a \<longrightarrow>
      health_check_one os a =
        (fst (restart os (a\<lparr>status := Crashed\<rparr>)), fst (snd (restart os (a\<lparr>status := Crashed\<rparr>)))))"
  by (auto simp add: health_check_one_def split: prod.splits)

theorem health_check_restarts_only_running_witness:
  "status (fst (snd (start os_nospawn worker0))) \<noteq> Running \<and>
   health_check_one (fst (start os_nospawn worker0)) (fst (snd (start os_nospawn worker0))) =
     (fst (start os_nospawn worker0), fst (snd (start os_nospawn worker0)))"
proof -
  have "status (fst (snd (start os_nospawn worker0))) \<noteq> Running"
    by (simp add: start_def os_nospawn_def worker0_def init_agent_def Let_def)
  then show ?thesis
    using health_check_restarts_only_running
      [of "fst (snd (start os_nospawn worker0))" "fst (start os_nospawn worker0)"]
    by blast
qed

text \<open>
  The claim C8 as it is written fails: a record whose launch could not spawn is failed,
  its process is not alive, and a health check changes neither the record nor the
  operating system, so that no restart is invoked.
\<close>

theorem failed_record_counterexample:
  "status (fst (snd (start os_nospawn worker0))) = Failed \<and>
   \<not> is_alive (fst (start os_nospawn worker0)) (fst (snd (start os_nospawn worker0))) \<and>
   health_check_one (fst (start os_nospawn worker0)) (fst (snd (start os_nospawn worker0))) =
     (fst (start os_nospawn worker0), fst (snd (start os_nospawn worker0))) \<and>
   restarts (snd (health_check_one (fst (start os_nospawn worker0))
     (fst (snd (start os_nospawn worker0))))) = 0 \<and>
   length (launches (fst (health_check_one (fst (start os_nospawn worker0))
     (fst (snd (start os_nospawn worker0)))))) = 1"
  by (simp add: start_def os_nospawn_def worker0_def init_agent_def Let_def is_alive_def
      health_check_one_def)


section \<open>Properties of the tree operations\<close>

lemma lookup_remove_under:
  "p \<noteq> [] \<Longrightarrow> prefix p q \<Longrightarrow> lookup (remove p t) q = None"
proof (induction p arbitrary: t q)
  case Nil
  then show ?case by simp
next
  case (Cons x xs)
  then obtain ys where q: "q = x # ys" "prefix xs ys" by (cases q) auto
  show ?case
  proof (cases t)
    case (File c m r)
    then show ?thesis using q by simp
  next
    case (Dir es)
    show ?thesis
    proof (cases "xs = []")
      case True
      then show ?thesis using Dir q by (simp add: delete_conv')
    next
      case False
      then show ?thesis using Dir q Cons.IH [OF False q(2)]
        by (auto simp add: update_conv' split: option.splits)
    qed
  qed
qed

lemma lookup_remove_above:
  "r \<noteq> [] \<Longrightarrow> lookup (remove (q @ r) t) q = map_option (remove r) (lookup t q)"
proof (induction q arbitrary: t)
  case Nil
  then show ?case by simp
next
  case (Cons y ys)
  show ?case
  proof (cases t)
    case (File c m r)
    then show ?thesis by simp
  next
    case (Dir es)
    then show ?thesis using Cons
      by (auto simp add: update_conv' split: option.splits)
  qed
qed

lemma lookup_remove_other:
  "\<not> prefix p q \<Longrightarrow> \<not> prefix q p \<Longrightarrow> lookup (remove p t) q = lookup t q"
proof (induction p arbitrary: t q)
  case Nil
  then show ?case by simp
next
  case (Cons x xs)
  then obtain y ys where q: "q = y # ys" by (cases q) auto
  show ?case
  proof (cases t)
    case (File c m r)
    then show ?thesis by simp
  next
    case (Dir es)
    show ?thesis
    proof (cases "y = x")
      case True
      then have "\<not> prefix xs ys" "\<not> prefix ys xs" using Cons.prems q by auto
      then show ?thesis using Dir q True Cons.IH [of ys]
        by (auto simp add: update_conv' split: option.splits)
    next
      case False
      then show ?thesis using Dir q
        by (auto simp add: update_conv' delete_conv' split: option.splits)
    qed
  qed
qed

lemma place_noop:
  "\<not> is_dir t (butlast p) \<Longrightarrow> place p v t = t"
proof (induction p arbitrary: t)
  case Nil
  then show ?case by simp
next
  case (Cons x xs)
  show ?case
  proof (cases t)
    case (File c m r)
    then show ?thesis by simp
  next
    case (Dir es)
    then show ?thesis using Cons
      by (auto simp add: is_dir_def update_triv split: option.splits node.splits)
  qed
qed

lemma lookup_place_under:
  "p \<noteq> [] \<Longrightarrow> is_dir t (butlast p) \<Longrightarrow> lookup (place p v t) (p @ r) = lookup v r"
proof (induction p arbitrary: t)
  case Nil
  then show ?case by simp
next
  case (Cons x xs)
  show ?case
  proof (cases t)
    case (File c m r)
    then show ?thesis using Cons.prems by (simp add: is_dir_def split: if_splits)
  next
    case (Dir es)
    show ?thesis
    proof (cases "xs = []")
      case True
      then show ?thesis using Dir by (simp add: update_conv')
    next
      case False
      then show ?thesis using Dir Cons.prems Cons.IH
        by (auto simp add: update_conv' is_dir_def split: option.splits)
    qed
  qed
qed

lemma lookup_place_above:
  "r \<noteq> [] \<Longrightarrow> lookup (place (q @ r) v t) q = map_option (place r v) (lookup t q)"
proof (induction q arbitrary: t)
  case Nil
  then show ?case by simp
next
  case (Cons y ys)
  show ?case
  proof (cases t)
    case (File c m r)
    then show ?thesis by simp
  next
    case (Dir es)
    then show ?thesis using Cons
      by (auto simp add: update_conv' split: option.splits)
  qed
qed

lemma lookup_place_other:
  "\<not> prefix p q \<Longrightarrow> \<not> prefix q p \<Longrightarrow> lookup (place p v t) q = lookup t q"
proof (induction p arbitrary: t q)
  case Nil
  then show ?case by simp
next
  case (Cons x xs)
  then obtain y ys where q: "q = y # ys" by (cases q) auto
  show ?case
  proof (cases t)
    case (File c m r)
    then show ?thesis by simp
  next
    case (Dir es)
    show ?thesis
    proof (cases "y = x")
      case True
      then have "\<not> prefix xs ys" "\<not> prefix ys xs" using Cons.prems q by auto
      then show ?thesis using Dir q True Cons.IH [of ys]
        by (auto simp add: update_conv' split: option.splits)
    next
      case False
      then show ?thesis using Dir q
        by (auto simp add: update_conv' split: option.splits)
    qed
  qed
qed

lemma remove_keeps_kind: "is_dir (remove r n) [] = is_dir n []" "is_file (remove r n) [] = is_file n []"
  by (cases r; cases n; simp add: is_dir_def is_file_def split: option.splits)+

lemma place_keeps_kind: "is_dir (place r v n) [] = is_dir n []" "is_file (place r v n) [] = is_file n []"
  by (cases r; cases n; simp add: is_dir_def is_file_def split: option.splits)+




lemma prefix_cases:
  obtains (under) "prefix p q" | (above) r where "p = q @ r" "r \<noteq> []" | (other) "\<not> prefix p q" "\<not> prefix q p"
proof (cases "prefix p q")
  case True
  then show ?thesis using under by blast
next
  case False
  show ?thesis
  proof (cases "prefix q p")
    case True
    then obtain r where "p = q @ r" by (auto simp add: prefix_def)
    moreover have "r \<noteq> []" using False calculation by auto
    ultimately show ?thesis using above by blast
  next
    case np: False
    then show ?thesis using False other by blast
  qed
qed

lemma kind_via_lookup:
  "is_dir t q = (case lookup t q of None \<Rightarrow> False | Some n \<Rightarrow> is_dir n [])"
  "is_file t q = (case lookup t q of None \<Rightarrow> False | Some n \<Rightarrow> is_file n [])"
  by (simp_all add: is_dir_def is_file_def split: option.splits node.splits)

lemma lookup_through_file:
  "is_file t p \<Longrightarrow> prefix p q \<Longrightarrow> p \<noteq> q \<Longrightarrow> lookup t q = None"
proof (induction p arbitrary: t q)
  case Nil
  then show ?case by (cases t; cases q; simp add: is_file_def)
next
  case (Cons x xs)
  then obtain ys where q: "q = x # ys" "prefix xs ys" "xs \<noteq> ys" by (cases q) auto
  show ?case
  proof (cases t)
    case (File c m r)
    then show ?thesis using q by simp
  next
    case (Dir es)
    then show ?thesis using q Cons.prems(1) Cons.IH [of _ ys]
      by (auto simp add: is_file_def split: option.splits)
  qed
qed

lemma lookup_below_missing:
  "lookup t p = None \<Longrightarrow> prefix p q \<Longrightarrow> lookup t q = None"
proof (induction p arbitrary: t q)
  case Nil
  then show ?case by simp
next
  case (Cons x xs)
  then obtain ys where q: "q = x # ys" "prefix xs ys" by (cases q) auto
  show ?case
  proof (cases t)
    case (File c m r)
    then show ?thesis using q by simp
  next
    case (Dir es)
    then show ?thesis using q Cons.prems(1) Cons.IH [of _ ys]
      by (auto split: option.splits)
  qed
qed

lemma exists_parent_is_dir:
  "exists t q \<Longrightarrow> prefix p q \<Longrightarrow> p \<noteq> q \<Longrightarrow> is_dir t p"
proof -
  assume a: "exists t q" "prefix p q" "p \<noteq> q"
  show ?thesis
  proof (cases "lookup t p")
    case None
    then show ?thesis using lookup_below_missing a by (simp add: exists_def)
  next
    case (Some n)
    show ?thesis
    proof (cases n)
      case (File c m r)
      then have "is_file t p" using Some by (simp add: is_file_def)
      then show ?thesis using lookup_through_file a by (simp add: exists_def)
    next
      case (Dir es)
      then show ?thesis using Some by (simp add: is_dir_def)
    qed
  qed
qed

lemma is_dir_remove:
  "is_dir (remove p t) q \<longleftrightarrow> is_dir t q \<and> \<not> (p \<noteq> [] \<and> prefix p q)"
proof (cases p q rule: prefix_cases)
  case under
  then show ?thesis
    by (cases "p = []") (simp_all add: lookup_remove_under kind_via_lookup(1))
next
  case (above r)
  then show ?thesis
    by (cases "lookup t q") (auto simp add: lookup_remove_above kind_via_lookup(1) [of _ q] remove_keeps_kind)
next
  case other
  then show ?thesis by (simp add: lookup_remove_other kind_via_lookup(1) [of _ q])
qed


lemma exists_remove:
  "exists (remove p t) q \<longleftrightarrow> exists t q \<and> \<not> (p \<noteq> [] \<and> prefix p q)"
proof (cases p q rule: prefix_cases)
  case under
  then show ?thesis
    by (cases "p = []") (simp_all add: lookup_remove_under exists_def)
next
  case (above r)
  then show ?thesis
    by (cases "lookup t q") (auto simp add: lookup_remove_above exists_def)
next
  case other
  then show ?thesis by (simp add: lookup_remove_other exists_def)
qed



lemma is_dir_place_outside:
  "\<not> prefix p q \<Longrightarrow> is_dir (place p v t) q = is_dir t q"
proof (cases p q rule: prefix_cases)
  case under
  assume "\<not> prefix p q"
  then show ?thesis using under by simp
next
  case (above r)
  then show ?thesis
    by (cases "lookup t q") (auto simp add: lookup_place_above kind_via_lookup(1) [of _ q] place_keeps_kind)
next
  case other
  then show ?thesis by (simp add: lookup_place_other kind_via_lookup(1) [of _ q])
qed


lemma exists_place_outside:
  "\<not> prefix p q \<Longrightarrow> exists (place p v t) q = exists t q"
proof (cases p q rule: prefix_cases)
  case under
  assume "\<not> prefix p q"
  then show ?thesis using under by simp
next
  case (above r)
  then show ?thesis
    by (cases "lookup t q") (auto simp add: lookup_place_above exists_def)
next
  case other
  then show ?thesis by (simp add: lookup_place_other exists_def)
qed

lemma lookup_place_inside:
  "p \<noteq> [] \<Longrightarrow> is_dir t (butlast p) \<Longrightarrow> prefix p q \<Longrightarrow>
   lookup (place p v t) q = lookup v (drop (length p) q)"
  using lookup_place_under [of p t v "drop (length p) q"]
  by (auto simp add: prefix_def)


lemma is_dir_root: "is_dir t p \<Longrightarrow> is_dir t []"
  by (cases t; cases p; simp add: is_dir_def)





lemma shutil_move_file_self:
  assumes "lookup t src = Some (File c m r)" "is_dir t (butlast src)"
  shows "shutil_move src src t = (t, None)"
proof -
  have "\<not> is_dir t src" using assms(1) by (simp add: is_dir_def)
  moreover have "is_dir t []" using is_dir_root [OF assms(2)] .
  then have "src \<noteq> []" using assms(1) by (auto simp add: is_dir_def)
  ultimately show ?thesis using assms
    by (auto simp add: shutil_move_def os_rename_def is_dir_def split: option.splits node.splits)
qed




lemma mkdir_p_is_dir: "mkdir_p p t = Inr t' \<Longrightarrow> is_dir t' p"
proof (induction p arbitrary: t t')
  case Nil
  then show ?case by (cases t) (auto simp add: is_dir_def)
next
  case (Cons x xs)
  show ?case
  proof (cases t)
    case (File c m r)
    then show ?thesis using Cons.prems by simp
  next
    case (Dir es)
    then obtain c' where c': "mkdir_p xs (case map_of es x of None \<Rightarrow> Dir [] | Some c \<Rightarrow> c) = Inr c'"
      "t' = Dir (AList.update x c' es)"
      using Cons.prems by (auto split: sum.splits)
    then show ?thesis using Cons.IH [OF c'(1)] by (simp add: is_dir_def update_conv')
  qed
qed

lemma mkdir_p_frame:
  "mkdir_p p t = Inr t' \<Longrightarrow> \<not> prefix q p \<Longrightarrow> lookup t' q = lookup t q"
proof (induction p arbitrary: t t' q)
  case Nil
  then show ?case by (cases t) auto
next
  case (Cons x xs)
  obtain y ys where q: "q = y # ys" using Cons.prems(2) by (cases q) auto
  show ?case
  proof (cases t)
    case (File c m r)
    then show ?thesis using Cons.prems by simp
  next
    case (Dir es)
    let ?c0 = "case map_of es x of None \<Rightarrow> Dir [] | Some c \<Rightarrow> c"
    obtain c' where c': "mkdir_p xs ?c0 = Inr c'" "t' = Dir (AList.update x c' es)"
      using Cons.prems Dir by (auto split: sum.splits)
    show ?thesis
    proof (cases "y = x")
      case True
      then have np: "\<not> prefix ys xs" using Cons.prems(2) q by simp
      then have "ys \<noteq> []" by auto
      then obtain z zs where ys: "ys = z # zs" by (cases ys) auto
      have "lookup c' ys = lookup ?c0 ys" using Cons.IH [OF c'(1) np] .
      then show ?thesis using Dir c'(2) q True ys
        by (auto simp add: update_conv' split: option.splits)
    next
      case False
      then show ?thesis using Dir c'(2) q by (simp add: update_conv')
    qed
  qed
qed

lemma mkdir_p_ancestors:
  assumes "mkdir_p p t = Inr t'" "prefix q p"
  shows "is_dir t' q"
proof (cases "q = p")
  case True
  then show ?thesis using mkdir_p_is_dir [OF assms(1)] by simp
next
  case False
  have "exists t' p" using mkdir_p_is_dir [OF assms(1)]
    by (simp add: is_dir_def exists_def split: option.splits)
  then show ?thesis using exists_parent_is_dir assms(2) False by blast
qed


lemma os_rename_ok:
  assumes "os_rename src dst t = Inr t'"
  shows "src \<noteq> [] \<and> dst \<noteq> [] \<and> is_dir t (butlast dst) \<and> exists t src \<and>
     (src = dst \<and> t' = t \<or>
      src \<noteq> dst \<and> \<not> prefix src dst \<and> (\<exists>v. lookup t src = Some v \<and> t' = place dst v (remove src t)))"
  using assms
  by (auto simp add: os_rename_def is_dir_def exists_def split: option.splits node.splits if_splits)

lemma grow_only_remove:
  "exists (remove p t) q \<Longrightarrow> exists t q" "is_dir (remove p t) q \<Longrightarrow> is_dir t q"
  by (simp_all add: exists_remove is_dir_remove)

lemma shutil_move_frame:
  assumes mv: "shutil_move src dst t = (t', r)"
    and nd: "\<not> is_dir t dst"
    and q: "\<not> prefix dst q" "\<not> prefix q dst"
  shows "exists t' q \<Longrightarrow> exists t q" and "is_dir t' q \<Longrightarrow> is_dir t q"
proof -
  have nq: "\<not> prefix q (butlast dst)" using q(2)
    by (metis butlast.simps(1) prefix_order.dual_order.trans prefixeq_butlast)
  have cands: "t' = t \<or> (\<exists>v. t' = place dst v (remove src t)) \<or>
      (\<exists>v t1. mkdir_p (butlast dst) t = Inr t1 \<and> (t' = place dst v t1 \<or> t' = remove src (place dst v t1)))"
  proof (cases "os_rename src dst t")
    case (Inr t2)
    then show ?thesis using mv nd os_rename_ok [OF Inr] by (auto simp add: shutil_move_def)
  next
    case (Inl e)
    then show ?thesis using mv nd
      by (auto simp add: shutil_move_def copytree_rmtree_def Let_def
          split: option.splits node.splits if_splits sum.splits)
  qed
  have a: "\<And>v t1. exists (place dst v t1) q = exists t1 q" "\<And>v t1. is_dir (place dst v t1) q = is_dir t1 q"
    using q(1) by (simp_all add: exists_place_outside is_dir_place_outside)
  have b: "\<And>t1. mkdir_p (butlast dst) t = Inr t1 \<Longrightarrow> exists t1 q = exists t q \<and> is_dir t1 q = is_dir t q"
    using mkdir_p_frame [OF _ nq] by (simp add: exists_def is_dir_def)
  show "exists t' q \<Longrightarrow> exists t q"
    using cands a b grow_only_remove(1) by (metis)
  show "is_dir t' q \<Longrightarrow> is_dir t q"
    using cands a b grow_only_remove(2) by (metis)
qed

lemma shutil_move_ok_lands:
  assumes mv: "shutil_move src dst t = (t', None)"
    and nd: "\<not> exists t dst" "exists t src"
  shows "exists t' dst \<and> is_dir t' (butlast dst)"
proof -
  have ndir: "\<not> is_dir t dst" using nd(1) by (simp add: is_dir_def exists_def split: option.splits)
  have ne: "src \<noteq> dst" using nd by auto
  show ?thesis
  proof (cases "os_rename src dst t")
    case (Inr t2)
    then have t2: "t2 = t'" using mv ndir by (simp add: shutil_move_def)
    from os_rename_ok [OF Inr] ne obtain v where
      f: "dst \<noteq> []" "is_dir t (butlast dst)" "\<not> prefix src dst" "src \<noteq> []"
        "lookup t src = Some v" "t' = place dst v (remove src t)"
      using t2 by auto
    have "\<not> prefix src (butlast dst)" using f(3)
      by (metis butlast.simps(1) prefix_order.dual_order.trans prefixeq_butlast)
    then have par: "is_dir (remove src t) (butlast dst)" using f(2) by (simp add: is_dir_remove)
    have "lookup t' dst = Some v" using lookup_place_inside [OF f(1) par, of dst v] f(6) by simp
    moreover have "\<not> prefix dst (butlast dst)" using f(1)
      by (metis append_butlast_last_id prefix_order.dual_order.antisym prefixeq_butlast snoc_eq_iff_butlast self_append_conv)
    then have "is_dir t' (butlast dst)" using par f(6) by (simp add: is_dir_place_outside)
    ultimately show ?thesis by (simp add: exists_def)
  next
    case (Inl e)
    then obtain es where es: "lookup t src = Some (Dir es)" "\<not> prefix src dst"
      "copytree_rmtree src dst (Dir es) t = (t', None)"
      using mv ndir by (auto simp add: shutil_move_def split: option.splits node.splits if_splits)
    then obtain t1 where t1: "mkdir_p (butlast dst) t = Inr t1"
      "t' = remove src (place dst (readable_part (Dir es)) t1)"
      by (auto simp add: copytree_rmtree_def Let_def split: if_splits sum.splits)
    have par: "is_dir t1 (butlast dst)" using mkdir_p_is_dir [OF t1(1)] .
    have dne: "dst \<noteq> []" using nd(1) by (auto simp add: exists_def)
    have np: "\<not> prefix dst (butlast dst)" using dne
      by (metis append_butlast_last_id prefix_order.dual_order.antisym prefixeq_butlast snoc_eq_iff_butlast self_append_conv)
    have nps: "\<not> prefix src (butlast dst)" using es(2)
      by (metis butlast.simps(1) prefix_order.dual_order.trans prefixeq_butlast)
    have "lookup (place dst (readable_part (Dir es)) t1) dst = Some (readable_part (Dir es))"
      using lookup_place_inside [OF dne par, of dst] by simp
    then have "exists (place dst (readable_part (Dir es)) t1) dst" by (simp add: exists_def)
    then have "exists t' dst" using t1(2) es(2) by (simp add: exists_remove)
    moreover have "is_dir t' (butlast dst)"
      using t1(2) par np nps by (simp add: is_dir_remove is_dir_place_outside)
    ultimately show ?thesis by simp
  qed
qed


section \<open>Properties of the audit log\<close>

lemma log_action_ok:
  assumes "log_ok st"
  shows "\<exists>st'. log_action k w t d a out st = Inr st' \<and> tree st' = tree st \<and>
     stdout st' = stdout st \<and> logs_writable st' = logs_writable st \<and> log_ok st' \<and>
     audit st' = audit st @ [new_entry k w t d a out]"
proof (cases "logs st")
  case Logs_missing
  then show ?thesis using assms
    by (simp add: log_ok_def log_action_def logs_mkdir_def load_log_def write_log_def
        audit_def get_today_log_def new_entry_def)
next
  case Logs_regular_file
  then show ?thesis using assms by (simp add: log_ok_def)
next
  case (Logs_directory f)
  then show ?thesis using assms
    by (cases f)
      (simp_all add: log_ok_def log_action_def logs_mkdir_def load_log_def write_log_def
        audit_def get_today_log_def new_entry_def)
qed

lemma log_action_Inr:
  assumes "log_action k w t d a out st = Inr st'"
  shows "log_ok st" and "tree st' = tree st" and "stdout st' = stdout st"
    and "logs_writable st' = logs_writable st" and "log_ok st'"
    and "audit st' = audit st @ [new_entry k w t d a out]"
proof -
  show ok: "log_ok st"
  proof (cases "logs st")
    case Logs_missing
    then show ?thesis using assms
      by (simp add: log_ok_def log_action_def logs_mkdir_def split: if_splits)
  next
    case Logs_regular_file
    then show ?thesis using assms by (simp add: log_action_def logs_mkdir_def)
  next
    case (Logs_directory f)
    then show ?thesis using assms
      by (cases f)
        (simp_all add: log_ok_def log_action_def logs_mkdir_def load_log_def write_log_def
          split: if_splits)
  qed
  from log_action_ok [OF ok, of k w t d a out] assms
  show "tree st' = tree st" and "stdout st' = stdout st"
    and "logs_writable st' = logs_writable st" and "log_ok st'"
    and "audit st' = audit st @ [new_entry k w t d a out]"
    by auto
qed


lemma log_action_cases:
  "(\<exists>st'. log_action k w t d a out st = Inr st') \<or> (\<exists>e. log_action k w t d a out st = Inl e)"
  by (cases "log_action k w t d a out st") auto





section \<open>Properties of the claim protocol\<close>

lemma lookup_append:
  "lookup t (p @ q) = (case lookup t p of None \<Rightarrow> None | Some n \<Rightarrow> lookup n q)"
proof (induction p arbitrary: t)
  case Nil
  then show ?case by simp
next
  case (Cons x xs)
  then show ?case by (cases t) (auto split: option.splits)
qed

lemma is_claimed_by_anyone_iff:
  assumes "is_dir t IN_PROGRESS_DIR"
  shows "is_claimed_by_anyone t n =
     Inr (\<exists>a. is_dir t (claim_dir a) \<and> exists t (claim_dir a @ [n]))"
proof -
  obtain es where es: "lookup t IN_PROGRESS_DIR = Some (Dir es)"
    using assms by (auto simp add: is_dir_def split: option.splits node.splits)
  have listed: "a \<in> fst ` set es" if "is_dir t (claim_dir a)" for a
  proof -
    have "lookup t (IN_PROGRESS_DIR @ [a]) \<noteq> None"
      using that by (auto simp add: claim_dir_def is_dir_def split: option.splits)
    then have "map_of es a \<noteq> None" using es by (auto simp add: lookup_append split: option.splits)
    then show ?thesis by (metis map_of_eq_None_iff)
  qed
  have "list_ex (\<lambda>agent_dir. is_dir t agent_dir \<and> exists t (agent_dir @ [n]))
          (map (\<lambda>x. IN_PROGRESS_DIR @ [x]) (remdups (map fst es))) \<longleftrightarrow>
        (\<exists>a. is_dir t (claim_dir a) \<and> exists t (claim_dir a @ [n]))"
    using listed by (auto simp add: list_ex_iff claim_dir_def)
  then show ?thesis using es by (simp add: is_claimed_by_anyone_def iterdir_def)
qed

lemma is_claimed_by_anyone_raises:
  "\<not> is_dir t IN_PROGRESS_DIR \<Longrightarrow> \<exists>e. is_claimed_by_anyone t n = Inl e"
  by (auto simp add: is_claimed_by_anyone_def iterdir_def is_dir_def split: option.splits node.splits)

lemma claim_when_held:
  assumes "is_dir (tree st) (claim_dir a)" "exists (tree st) (claim_dir a @ [path_name p])"
  shows "claim w p st = Inr (None, st)"
proof -
  have "exists (tree st) (claim_dir a)"
    using assms(1) by (simp add: is_dir_def exists_def split: option.splits)
  then have "is_dir (tree st) IN_PROGRESS_DIR"
    using exists_parent_is_dir [of "tree st" "claim_dir a" IN_PROGRESS_DIR]
    by (simp add: claim_dir_def)
  then have "is_claimed_by_anyone (tree st) (path_name p) = Inr True"
    using is_claimed_by_anyone_iff assms by auto
  then show ?thesis by (simp add: claim_def)
qed

lemma claim_unfold:
  assumes "exists (tree st) p" "is_claimed_by_anyone (tree st) (path_name p) = Inr False"
  shows "claim w p st =
     (case shutil_move p (claim_dir w @ [path_name p]) (tree st) of
        (t', Some e) \<Rightarrow> except_OSError e (None, st\<lparr>tree := t'\<rparr>)
      | (t', None) \<Rightarrow>
          (case log_action ''task_claimed'' w (path_name p)
                  (Text (''Claimed by '' @ w)) ''N/A'' ''success'' (st\<lparr>tree := t'\<rparr>) of
             Inl e \<Rightarrow> except_OSError e (None, st\<lparr>tree := t'\<rparr>)
           | Inr st' \<Rightarrow> Inr (Some (claim_dir w @ [path_name p]), st')))"
  by (simp only: claim_def Let_def assms simp_thms if_False sum.case bool.case)

lemma claim_Some:
  assumes "claim w p st = Inr (Some d, st')"
  obtains t' where "exists (tree st) p" "is_claimed_by_anyone (tree st) (path_name p) = Inr False"
    "shutil_move p (claim_dir w @ [path_name p]) (tree st) = (t', None)"
    "log_action ''task_claimed'' w (path_name p) (Text (''Claimed by '' @ w)) ''N/A'' ''success''
       (st\<lparr>tree := t'\<rparr>) = Inr st'"
    "d = claim_dir w @ [path_name p]"
proof -
  have ex: "exists (tree st) p" using assms by (auto simp add: claim_def split: if_splits)
  have nc: "is_claimed_by_anyone (tree st) (path_name p) = Inr False"
    using assms ex by (auto simp add: claim_def Let_def split: sum.splits bool.splits if_splits)
  obtain t' r where mv: "shutil_move p (claim_dir w @ [path_name p]) (tree st) = (t', r)"
    by (cases "shutil_move p (claim_dir w @ [path_name p]) (tree st)")
  have r: "r = None"
  proof (cases r)
    case None
    then show ?thesis .
  next
    case (Some e)
    then show ?thesis using assms mv unfolding claim_unfold [OF ex nc]
      by (simp add: except_OSError_def split: if_splits)
  qed
  have "log_action ''task_claimed'' w (path_name p) (Text (''Claimed by '' @ w)) ''N/A'' ''success''
       (st\<lparr>tree := t'\<rparr>) = Inr st' \<and> d = claim_dir w @ [path_name p]"
    using assms mv r unfolding claim_unfold [OF ex nc]
    by (simp add: except_OSError_def split: sum.splits if_splits)
  then show ?thesis using that ex nc mv r by blast
qed

lemma claim_success:
  assumes "claim w p st = Inr (Some d, st')"
  shows "d = claim_dir w @ [path_name p]"
    and "\<not> (is_dir (tree st) (claim_dir a) \<and> exists (tree st) (claim_dir a @ [path_name p]))"
    and "is_dir (tree st') (claim_dir w)" and "exists (tree st') d"
    and "is_dir (tree st') (claim_dir a) \<and> exists (tree st') (claim_dir a @ [path_name p]) \<Longrightarrow> a = w"
proof -
  let ?n = "path_name p"
  let ?dest = "claim_dir w @ [?n]"
  from claim_Some [OF assms] obtain t' where ex: "exists (tree st) p"
    and nc: "is_claimed_by_anyone (tree st) ?n = Inr False"
    and mv: "shutil_move p ?dest (tree st) = (t', None)"
    and lg: "log_action ''task_claimed'' w ?n (Text (''Claimed by '' @ w)) ''N/A'' ''success''
       (st\<lparr>tree := t'\<rparr>) = Inr st'"
    and d: "d = ?dest"
    by blast
  have st': "tree st' = t'" using log_action_Inr(2) [OF lg] by simp
  have ip: "is_dir (tree st) IN_PROGRESS_DIR"
    using nc is_claimed_by_anyone_raises [of "tree st" ?n] by auto
  have free: "\<And>a. \<not> (is_dir (tree st) (claim_dir a) \<and> exists (tree st) (claim_dir a @ [?n]))"
    using nc is_claimed_by_anyone_iff [OF ip, of ?n] by simp
  show "\<not> (is_dir (tree st) (claim_dir a) \<and> exists (tree st) (claim_dir a @ [path_name p]))"
    using free .
  show "d = ?dest" using d .
  have nd: "\<not> exists (tree st) ?dest"
  proof
    assume e: "exists (tree st) ?dest"
    then have "is_dir (tree st) (claim_dir w)"
      using exists_parent_is_dir [of "tree st" ?dest "claim_dir w"] by simp
    then show False using free e by blast
  qed
  have lands: "exists t' ?dest \<and> is_dir t' (butlast ?dest)"
    using shutil_move_ok_lands [OF mv nd ex] .
  show "is_dir (tree st') (claim_dir w)" using lands st' by simp
  show "exists (tree st') d" using lands st' d by simp
  show "a = w" if h: "is_dir (tree st') (claim_dir a) \<and> exists (tree st') (claim_dir a @ [?n])"
  proof (rule ccontr)
    assume ne: "a \<noteq> w"
    have ndir: "\<not> is_dir (tree st) ?dest"
      using nd by (simp add: is_dir_def exists_def split: option.splits)
    have 1: "\<not> prefix ?dest (claim_dir a)" "\<not> prefix (claim_dir a) ?dest"
      using ne by (auto simp add: claim_dir_def IN_PROGRESS_DIR_def)
    have 2: "\<not> prefix ?dest (claim_dir a @ [?n])" "\<not> prefix (claim_dir a @ [?n]) ?dest"
      using ne by (auto simp add: claim_dir_def IN_PROGRESS_DIR_def)
    have "is_dir (tree st) (claim_dir a)"
      using shutil_move_frame(2) [OF mv ndir 1] h st' by simp
    moreover have "exists (tree st) (claim_dir a @ [?n])"
      using shutil_move_frame(1) [OF mv ndir 2] h st' by simp
    ultimately show False using free by blast
  qed
qed

text \<open>
  C1. If some worker's scratch queue (a directory \<open>claim_dir a\<close> under In\_Progress)
  holds an entry named like the task, \<open>claim\<close> by any worker \<open>w\<close> (the holder
  included) returns \<^verbatim>\<open>None\<close> and leaves the vault as it is. When a claim succeeds,
  nobody held the name before, the task is in the claimant's scratch queue afterwards, no
  other scratch queue holds the name, and every further claim of a task of that name, by
  any worker, returns \<^verbatim>\<open>None\<close> and changes nothing.
\<close>

theorem claim_mutual_exclusion:
  "(is_dir (tree st) (claim_dir a) \<and> exists (tree st) (claim_dir a @ [path_name p]) \<longrightarrow>
      claim w p st = Inr (None, st)) \<and>
   (claim w p st = Inr (Some d, st') \<longrightarrow>
      d = claim_dir w @ [path_name p] \<and>
      (\<forall>a. \<not> (is_dir (tree st) (claim_dir a) \<and> exists (tree st) (claim_dir a @ [path_name p]))) \<and>
      is_dir (tree st') (claim_dir w) \<and> exists (tree st') d \<and>
      (\<forall>a. is_dir (tree st') (claim_dir a) \<and> exists (tree st') (claim_dir a @ [path_name p]) \<longrightarrow> a = w) \<and>
      (\<forall>w' p'. path_name p' = path_name p \<longrightarrow> claim w' p' st' = Inr (None, st')))"
proof (intro conjI impI)
  assume "is_dir (tree st) (claim_dir a) \<and> exists (tree st) (claim_dir a @ [path_name p])"
  then show "claim w p st = Inr (None, st)" using claim_when_held by blast
next
  assume c: "claim w p st = Inr (Some d, st')"
  show "d = claim_dir w @ [path_name p]" using claim_success(1) [OF c] .
  show "\<forall>a. \<not> (is_dir (tree st) (claim_dir a) \<and> exists (tree st) (claim_dir a @ [path_name p]))"
    using claim_success(2) [OF c] by blast
  show "is_dir (tree st') (claim_dir w)" using claim_success(3) [OF c] .
  show "exists (tree st') d" using claim_success(4) [OF c] .
  show "\<forall>a. is_dir (tree st') (claim_dir a) \<and> exists (tree st') (claim_dir a @ [path_name p]) \<longrightarrow> a = w"
    using claim_success(5) [OF c] by blast
  show "\<forall>w' p'. path_name p' = path_name p \<longrightarrow> claim w' p' st' = Inr (None, st')"
  proof (intro allI impI)
    fix w' p' assume n: "path_name p' = path_name p"
    have "is_dir (tree st') (claim_dir w)" using claim_success(3) [OF c] .
    moreover have "exists (tree st') (claim_dir w @ [path_name p'])"
      using claim_success(4) [OF c] claim_success(1) [OF c] n by simp
    ultimately show "claim w' p' st' = Inr (None, st')" using claim_when_held by blast
  qed
qed

lemma claim_vault0:
  "claim ''cloud_agent'' [''Needs_Action'', ''t.md''] vault0 =
     Inr (Some [''In_Progress'', ''cloud_agent'', ''t.md''], vault1)"
proof -
  let ?p = "[''Needs_Action'', ''t.md'']"
  have ex: "exists (tree vault0) ?p" by (simp add: vault0_def exists_def)
  have pn: "path_name ?p = ''t.md''" by (simp add: path_name_def)
  have nc: "is_claimed_by_anyone (tree vault0) (path_name ?p) = Inr False"
    by (simp add: pn vault0_def is_claimed_by_anyone_def iterdir_def IN_PROGRESS_DIR_def
        is_dir_def exists_def)
  have mv: "shutil_move ?p (claim_dir ''cloud_agent'' @ [path_name ?p]) (tree vault0) =
      (tree vault1, None)"
    by (simp add: pn vault0_def vault1_def claim_dir_def IN_PROGRESS_DIR_def shutil_move_def
        os_rename_def is_dir_def)
  have lg: "log_action ''task_claimed'' ''cloud_agent'' (path_name ?p)
      (Text (''Claimed by '' @ ''cloud_agent'')) ''N/A'' ''success''
      (vault0\<lparr>tree := tree vault1\<rparr>) = Inr vault1"
    by (simp add: pn log_action_def logs_mkdir_def load_log_def write_log_def vault0_def vault1_def)
  show ?thesis
    unfolding claim_unfold [OF ex nc] mv using lg
    by (simp add: pn claim_dir_def IN_PROGRESS_DIR_def)
qed

theorem claim_mutual_exclusion_witness:
  "claim ''cloud_agent'' [''Needs_Action'', ''t.md''] vault0 =
     Inr (Some [''In_Progress'', ''cloud_agent'', ''t.md''], vault1) \<and>
   is_dir (tree vault1) (claim_dir ''cloud_agent'') \<and>
   exists (tree vault1) (claim_dir ''cloud_agent'' @ [path_name [''Approved'', ''t.md'']]) \<and>
   claim ''local_agent'' [''Approved'', ''t.md''] vault1 = Inr (None, vault1) \<and>
   claim ''cloud_agent'' [''Approved'', ''t.md''] vault1 = Inr (None, vault1)"
proof -
  have h: "is_dir (tree vault1) (claim_dir ''cloud_agent'') \<and>
     exists (tree vault1) (claim_dir ''cloud_agent'' @ [path_name [''Approved'', ''t.md'']])"
    by (simp add: vault1_def claim_dir_def IN_PROGRESS_DIR_def is_dir_def exists_def path_name_def)
  have n: "path_name [''Approved'', ''t.md''] = path_name [''Needs_Action'', ''t.md'']"
    by (simp add: path_name_def)
  show ?thesis
    using claim_vault0 h n
      claim_mutual_exclusion [of vault1 "''cloud_agent''" "[''Approved'', ''t.md'']" "''local_agent''"]
      claim_mutual_exclusion [of vault0 _ "[''Needs_Action'', ''t.md'']" "''cloud_agent''"
        "[''In_Progress'', ''cloud_agent'', ''t.md'']" vault1]
    by blast
qed

lemma log_fields_tree [simp]:
  "log_ok (st\<lparr>tree := t\<rparr>) = log_ok st" "log_escapes (st\<lparr>tree := t\<rparr>) = log_escapes st"
  "audit (st\<lparr>tree := t\<rparr>) = audit st"
  by (simp_all add: log_ok_def log_escapes_def audit_def get_today_log_def)

lemma release_unfold:
  assumes "exists (tree st) p" "mkdir_p d (tree st) = Inr t1"
  shows "release w p d st =
     (case shutil_move p (d @ [path_name p]) t1 of
        (t', Some e) \<Rightarrow> except_OSError e (None, st\<lparr>tree := t'\<rparr>)
      | (t', None) \<Rightarrow>
          (case log_action ''task_released'' w (path_name p)
                  (Text (''Released to '' @ path_name d)) ''N/A'' ''success'' (st\<lparr>tree := t'\<rparr>) of
             Inl e \<Rightarrow> except_OSError e (None, st\<lparr>tree := t'\<rparr>)
           | Inr st' \<Rightarrow> Inr (Some (d @ [path_name p]), st')))"
  by (simp only: release_def Let_def assms simp_thms if_False sum.case)











text \<open>
  C2. The claim holds of the sibling movers of the repository (the router and the
  approval gate rename the task when its name is taken in the destination), and the
  code of \<open>release\<close> and \<open>abandon_stale\<close> breaks it. With \<^verbatim>\<open>t.md\<close>
  already in Done, both \<open>release_to_done\<close> and \<open>abandon_stale\<close> succeed on a
  claimed \<^verbatim>\<open>t.md\<close>: the move is reported, and the entry that was in Done is replaced
  by the task. When the entry in Done is a directory of that name, \<open>release_to_done\<close>
  reports the path \<^verbatim>\<open>Done/t.md\<close> and the task is inside that directory.
\<close>

theorem release_overwrites_same_name:
  "lookup (tree vault_collision) [''Done'', ''t.md''] = Some (File ''old'' 50 True) \<and>
   release_to_done ''cloud_agent'' [''In_Progress'', ''cloud_agent'', ''t.md''] vault_collision =
     Inr (Some [''Done'', ''t.md''], vault_collision_released) \<and>
   lookup (tree vault_collision_released) [''Done'', ''t.md''] = Some (File ''new'' 100 True) \<and>
   abandon_stale ''cloud_agent'' DONE_DIR 4 18100 exact (\<lambda>p. 0) vault_collision =
     Inr (1, vault_collision_abandoned) \<and>
   lookup (tree vault_collision_abandoned) [''Done'', ''t.md''] = Some (File ''new'' 100 True) \<and>
   lookup (tree vault_collision_dir) [''Done'', ''t.md''] = Some (Dir []) \<and>
   release_to_done ''cloud_agent'' [''In_Progress'', ''cloud_agent'', ''t.md''] vault_collision_dir =
     Inr (Some [''Done'', ''t.md''], vault_collision_dir_released) \<and>
   lookup (tree vault_collision_dir_released) [''Done'', ''t.md'', ''t.md''] = Some (File ''new'' 100 True)"
proof -
  let ?p = "[''In_Progress'', ''cloud_agent'', ''t.md'']"
  let ?t = "tree vault_collision"
  have pn: "path_name ?p = ''t.md''" "path_name DONE_DIR = ''Done''"
    by (simp_all add: path_name_def DONE_DIR_def)
  have mv: "shutil_move ?p (DONE_DIR @ [path_name ?p]) ?t = (tree vault_collision_released, None)"
    by (simp add: pn DONE_DIR_def vault_collision_def vault_collision_released_def shutil_move_def
        os_rename_def is_dir_def)
  have ex: "exists ?t ?p" by (simp add: vault_collision_def exists_def)
  have mk: "mkdir_p DONE_DIR ?t = Inr ?t" by (simp add: vault_collision_def DONE_DIR_def)
  have lg: "log_action ''task_released'' ''cloud_agent'' (path_name ?p)
      (Text (''Released to '' @ path_name DONE_DIR)) ''N/A'' ''success''
      (vault_collision\<lparr>tree := tree vault_collision_released\<rparr>) = Inr vault_collision_released"
    by (simp add: pn log_action_def logs_mkdir_def load_log_def write_log_def vault_collision_def
        vault_collision_released_def)
  have r: "release_to_done ''cloud_agent'' ?p vault_collision =
      Inr (Some [''Done'', ''t.md''], vault_collision_released)"
    unfolding release_to_done_def release_unfold [OF ex mk] mv using lg
    by (simp add: pn DONE_DIR_def)
  have lc: "list_claimed ''cloud_agent'' ?t = Inr [?p]"
    by (simp add: list_claimed_def claim_dir_def IN_PROGRESS_DIR_def exists_def iterdir_def
        is_file_def path_name_def vault_collision_def)
  have mt: "st_mtime (\<lambda>p. 0) ?t ?p = Inr 100" by (simp add: st_mtime_def vault_collision_def)
  have age: "age_hours_of exact 18100 100 = 5" by (simp add: age_hours_of_def exact_def)
  have tr: "tree vault_collision_abandoned = tree vault_collision_released"
    by (simp add: vault_collision_abandoned_def vault_collision_released_def)
  have lg2: "log_action ''task_abandoned'' ''cloud_agent'' (path_name ?p)
      (StaleClaim 5 (path_name DONE_DIR)) ''N/A'' ''success''
      (vault_collision\<lparr>tree := tree vault_collision_released\<rparr>) = Inr vault_collision_abandoned"
    by (simp add: pn log_action_def logs_mkdir_def load_log_def write_log_def vault_collision_def
        vault_collision_released_def vault_collision_abandoned_def)
  have one: "abandon_one ''cloud_agent'' DONE_DIR 5 ?p 0 vault_collision =
      Inr (1, vault_collision_abandoned)"
    unfolding abandon_one_def mv using lg2 by simp
  have a: "abandon_stale ''cloud_agent'' DONE_DIR 4 18100 exact (\<lambda>p. 0) vault_collision =
      Inr (1, vault_collision_abandoned)"
    unfolding abandon_stale_def lc using mt age one by simp
  let ?u = "tree vault_collision_dir"
  have mv2: "shutil_move ?p (DONE_DIR @ [path_name ?p]) ?u = (tree vault_collision_dir_released, None)"
    by (simp add: pn DONE_DIR_def vault_collision_dir_def vault_collision_dir_released_def
        shutil_move_def os_rename_def is_dir_def exists_def)
  have ex2: "exists ?u ?p" by (simp add: vault_collision_dir_def exists_def)
  have mk2: "mkdir_p DONE_DIR ?u = Inr ?u" by (simp add: vault_collision_dir_def DONE_DIR_def)
  have lg3: "log_action ''task_released'' ''cloud_agent'' (path_name ?p)
      (Text (''Released to '' @ path_name DONE_DIR)) ''N/A'' ''success''
      (vault_collision_dir\<lparr>tree := tree vault_collision_dir_released\<rparr>) =
      Inr vault_collision_dir_released"
    by (simp add: pn log_action_def logs_mkdir_def load_log_def write_log_def vault_collision_dir_def
        vault_collision_dir_released_def)
  have r2: "release_to_done ''cloud_agent'' ?p vault_collision_dir =
      Inr (Some [''Done'', ''t.md''], vault_collision_dir_released)"
    unfolding release_to_done_def release_unfold [OF ex2 mk2] mv2 using lg3
    by (simp add: pn DONE_DIR_def)
  have l1: "lookup ?t [''Done'', ''t.md''] = Some (File ''old'' 50 True)"
    by (simp add: vault_collision_def)
  have l2: "lookup (tree vault_collision_released) [''Done'', ''t.md''] = Some (File ''new'' 100 True)"
    by (simp add: vault_collision_released_def)
  have l3: "lookup (tree vault_collision_abandoned) [''Done'', ''t.md''] = Some (File ''new'' 100 True)"
    by (simp add: vault_collision_abandoned_def)
  have l4: "lookup ?u [''Done'', ''t.md''] = Some (Dir [])" by (simp add: vault_collision_dir_def)
  have l5: "lookup (tree vault_collision_dir_released) [''Done'', ''t.md'', ''t.md''] =
      Some (File ''new'' 100 True)"
    by (simp add: vault_collision_dir_released_def)
  show ?thesis using l1 r l2 a l3 l4 r2 l5 by (intro conjI)
qed











end
